theory Spec2Isabelle
  imports Main
begin

section \<open>Strings and characters of the Go program\<close>

text \<open>
  A Go string is a sequence of bytes; it is modelled as a \<^typ>\<open>string\<close>, one
  \<^typ>\<open>char\<close> per byte. The functions of the packages \<^verbatim>\<open>unicode\<close> and
  \<^verbatim>\<open>strings\<close> that \<^verbatim>\<open>main.go\<close> calls are modelled on the ASCII range,
  where a rune is one byte; a byte from 0x80 on (a part of a multi-byte UTF-8 sequence)
  is neither a letter with a case nor a separator here and is passed through unchanged.
  Every identifier that the column pattern \<^verbatim>\<open>\w+\<close> captures is ASCII, so the model
  is exact on everything the extractor derives from a schema.
\<close>

definition isUpper :: "char \<Rightarrow> bool" where
  "isUpper c = (65 \<le> (of_char c :: nat) \<and> (of_char c :: nat) \<le> 90)"

definition isLower :: "char \<Rightarrow> bool" where
  "isLower c = (97 \<le> (of_char c :: nat) \<and> (of_char c :: nat) \<le> 122)"

definition isDigit :: "char \<Rightarrow> bool" where
  "isDigit c = (48 \<le> (of_char c :: nat) \<and> (of_char c :: nat) \<le> 57)"

definition toUpper :: "char \<Rightarrow> char" where
  "toUpper c = (if isLower c then char_of ((of_char c :: nat) - 32) else c)"

definition toLower :: "char \<Rightarrow> char" where
  "toLower c = (if isUpper c then char_of ((of_char c :: nat) + 32) else c)"

text \<open>\<^verbatim>\<open>strings.ToUpper\<close> and \<^verbatim>\<open>strings.ToLower\<close>.\<close>

definition ToUpper :: "string \<Rightarrow> string" where
  "ToUpper s = map toUpper s"

definition ToLower :: "string \<Rightarrow> string" where
  "ToLower s = map toLower s"

text \<open>
  \<^verbatim>\<open>isSeparator\<close> of package \<^verbatim>\<open>strings\<close>: ASCII letters, digits and the underscore
  are not separators, every other ASCII character is.
\<close>

definition isSeparator :: "char \<Rightarrow> bool" where
  "isSeparator c =
     ((of_char c :: nat) \<le> 127 \<and> \<not> isDigit c \<and> \<not> isLower c \<and> \<not> isUpper c \<and> c \<noteq> CHR ''_'')"

text \<open>
  \<^verbatim>\<open>strings.Title\<close>: the letter that follows a separator (or starts the string) is
  mapped to title case; \<^verbatim>\<open>prev\<close> starts as a blank.
\<close>

fun Title_from :: "char \<Rightarrow> string \<Rightarrow> string" where
  "Title_from prev [] = []"
| "Title_from prev (r # rs) = (if isSeparator prev then toUpper r else r) # Title_from r rs"

definition Title :: "string \<Rightarrow> string" where
  "Title s = Title_from (CHR '' '') s"

text \<open>
  \<^verbatim>\<open>strings.Split(s, sep)\<close> for a separator of one character: the pieces between
  the occurrences of the separator; never an empty list.
\<close>

fun Split :: "string \<Rightarrow> char \<Rightarrow> string list" where
  "Split [] sep = [[]]"
| "Split (c # cs) sep =
     (if c = sep then [] # Split cs sep
      else (c # hd (Split cs sep)) # tl (Split cs sep))"

text \<open>\<^verbatim>\<open>strings.Join(parts, sep)\<close>.\<close>

fun Join :: "string list \<Rightarrow> string \<Rightarrow> string" where
  "Join [] sep = []"
| "Join [p] sep = p"
| "Join (p # q # ps) sep = p @ sep @ Join (q # ps) sep"

text \<open>\<^verbatim>\<open>strings.HasPrefix\<close>, \<^verbatim>\<open>strings.TrimPrefix\<close> and \<^verbatim>\<open>strings.Contains\<close>.\<close>

definition HasPrefix :: "string \<Rightarrow> string \<Rightarrow> bool" where
  "HasPrefix s pre = (take (length pre) s = pre)"

definition TrimPrefix :: "string \<Rightarrow> string \<Rightarrow> string" where
  "TrimPrefix s pre = (if HasPrefix s pre then drop (length pre) s else s)"

fun Contains :: "string \<Rightarrow> string \<Rightarrow> bool" where
  "Contains [] sub = (sub = [])"
| "Contains (c # cs) sub = (HasPrefix (c # cs) sub \<or> Contains cs sub)"

section \<open>Naming transformer\<close>

text \<open>
  \<^verbatim>\<open>ToSnakeCase\<close>: the loop over the runes of \<open>s\<close> with their index \<open>i\<close>; an
  underscore goes before every upper-case letter but one at index 0. The loop here runs
  over bytes with the ASCII cases, which is the source's loop on every ASCII text. The
  source ranges over runes with \<^verbatim>\<open>unicode.IsUpper\<close> and \<^verbatim>\<open>unicode.ToLower\<close>: on a
  name with an upper-case letter outside ASCII it gives another result than this loop.
  The function only names the output file, from the second struct name.
\<close>

fun ToSnakeCase_loop :: "nat \<Rightarrow> string \<Rightarrow> string" where
  "ToSnakeCase_loop i [] = []"
| "ToSnakeCase_loop i (r # rs) =
     (if isUpper r
      then (if i > 0 then [CHR ''_''] else []) @ [toLower r]
      else [r]) @ ToSnakeCase_loop (Suc i) rs"

definition ToSnakeCase :: "string \<Rightarrow> string" where
  "ToSnakeCase s = ToSnakeCase_loop 0 s"

text \<open>
  \<^verbatim>\<open>ToPascalCase\<close>. \<open>pascal_joined\<close> is the local \<^verbatim>\<open>result\<close>: the parts between
  underscores, each through \<^verbatim>\<open>strings.Title\<close>, joined with nothing between them. A
  leading \<^verbatim>\<open>F\<close> of it is dropped and the next character is put in upper case.
\<close>

definition pascal_joined :: "string \<Rightarrow> string" where
  "pascal_joined s = Join (map Title (Split s (CHR ''_''))) []"

definition ToPascalCase :: "string \<Rightarrow> string" where
  "ToPascalCase s =
     (let result = pascal_joined s in
      if length result > 0 \<and> HasPrefix result ''F''
      then (let remaining = drop 1 result in
            if remaining \<noteq> [] then ToUpper [hd remaining] @ drop 1 remaining
            else remaining)
      else result)"

text \<open>
  What the specification says of a part between underscores: its first letter is put in
  upper case, the rest is kept.
\<close>

definition capitalize :: "string \<Rightarrow> string" where
  "capitalize part = (case part of [] \<Rightarrow> [] | c # cs \<Rightarrow> toUpper c # cs)"

section \<open>Regular expressions of package \<^verbatim>\<open>regexp\<close>\<close>

text \<open>
  The five patterns of \<^verbatim>\<open>main.go\<close> are written as terms of a small syntax. Go's
  \<^verbatim>\<open>regexp\<close> finds the leftmost match and, among the matches that start there, the one
  a backtracking search finds first. The matcher below returns, for a start position,
  every way the pattern can match, in the order of that search: its first result is Go's
  match. A position in the text is the pair of the text before it (reversed) and the
  text after it.

  The patterns contain only ASCII literals, the Perl classes, the class
  \<^verbatim>\<open>[a-zA-Z]\<close>, the dot and \<^verbatim>\<open>\S\<close>; what follows a dot or \<^verbatim>\<open>\S\<close> in them is an
  ASCII character, so matching byte by byte gives the matches that Go finds rune by rune.
  Under \<^verbatim>\<open>(?i)\<close> a literal letter matches both of its ASCII cases (exact for the letters
  of NOT, NULL and DEFAULT, none of which has a fold partner outside ASCII).
\<close>

definition isWordChar :: "char \<Rightarrow> bool" where
  "isWordChar c = (isDigit c \<or> isUpper c \<or> isLower c \<or> c = CHR ''_'')"

definition isSpace :: "char \<Rightarrow> bool" where
  "isSpace c = (c = CHR 0x09 \<or> c = CHR 0x0A \<or> c = CHR 0x0C \<or> c = CHR 0x0D \<or> c = CHR 0x20)"

datatype cls =
    Lit char        \<comment> \<open>a literal character\<close>
  | LitFold char    \<comment> \<open>a literal character under \<^verbatim>\<open>(?i)\<close>\<close>
  | WordCls         \<comment> \<open>\<^verbatim>\<open>\w\<close>\<close>
  | DigitCls        \<comment> \<open>\<^verbatim>\<open>\d\<close>\<close>
  | SpaceCls        \<comment> \<open>\<^verbatim>\<open>\s\<close>\<close>
  | NonSpaceCls     \<comment> \<open>\<^verbatim>\<open>\S\<close>\<close>
  | AlphaCls        \<comment> \<open>\<^verbatim>\<open>[a-zA-Z]\<close> and \<^verbatim>\<open>[A-Za-z]\<close>\<close>
  | Dot             \<comment> \<open>\<^verbatim>\<open>.\<close>: any character but a newline\<close>

fun cls_ok :: "cls \<Rightarrow> char \<Rightarrow> bool" where
  "cls_ok (Lit c) x = (x = c)"
| "cls_ok (LitFold c) x = (toLower x = toLower c)"
| "cls_ok WordCls x = isWordChar x"
| "cls_ok DigitCls x = isDigit x"
| "cls_ok SpaceCls x = isSpace x"
| "cls_ok NonSpaceCls x = (\<not> isSpace x)"
| "cls_ok AlphaCls x = (isUpper x \<or> isLower x)"
| "cls_ok Dot x = (x \<noteq> CHR 0x0A)"

datatype regex =
    Atom cls
  | Eps                 \<comment> \<open>the empty pattern\<close>
  | Cat regex regex     \<comment> \<open>\<^verbatim>\<open>xy\<close>\<close>
  | Alt regex regex     \<comment> \<open>\<^verbatim>\<open>x|y\<close>, preferring \<^verbatim>\<open>x\<close>\<close>
  | Star regex          \<comment> \<open>\<^verbatim>\<open>x*\<close>, preferring more\<close>
  | StarLazy regex      \<comment> \<open>\<^verbatim>\<open>x*?\<close>, preferring fewer\<close>
  | Group nat regex     \<comment> \<open>\<^verbatim>\<open>(x)\<close>, a numbered capturing group\<close>
  | WordBoundary        \<comment> \<open>\<^verbatim>\<open>\b\<close>\<close>

text \<open>\<^verbatim>\<open>x+\<close> is \<^verbatim>\<open>xx*\<close> and \<^verbatim>\<open>x?\<close> is \<^verbatim>\<open>x|\<close>(empty), both preferring more.\<close>

definition Plus :: "regex \<Rightarrow> regex" where
  "Plus r = Cat r (Star r)"

definition Opt :: "regex \<Rightarrow> regex" where
  "Opt r = Alt r Eps"

definition cats :: "regex list \<Rightarrow> regex" where
  "cats rs = foldr Cat rs Eps"

definition lit :: "string \<Rightarrow> regex" where
  "lit s = cats (map (\<lambda>c. Atom (Lit c)) s)"

definition litFold :: "string \<Rightarrow> regex" where
  "litFold s = cats (map (\<lambda>c. Atom (LitFold c)) s)"

fun num_groups :: "regex \<Rightarrow> nat" where
  "num_groups (Atom c) = 0"
| "num_groups Eps = 0"
| "num_groups (Cat a b) = max (num_groups a) (num_groups b)"
| "num_groups (Alt a b) = max (num_groups a) (num_groups b)"
| "num_groups (Star a) = num_groups a"
| "num_groups (StarLazy a) = num_groups a"
| "num_groups (Group n a) = max n (num_groups a)"
| "num_groups WordBoundary = 0"

text \<open>
  A matcher state: the text before the position (reversed), the text after it, and the
  text captured by each group so far.
\<close>

type_synonym mstate = "string \<times> string \<times> (nat \<rightharpoonup> string)"

definition rest_of :: "mstate \<Rightarrow> string" where
  "rest_of st = fst (snd st)"

definition at_word :: "string \<Rightarrow> bool" where
  "at_word xs = (case xs of [] \<Rightarrow> False | x # _ \<Rightarrow> isWordChar x)"

text \<open>
  An iteration of a star that consumes nothing is not repeated (no pattern of the program
  has such a star: the body of each is a single character class).
\<close>

function rmatch :: "regex \<Rightarrow> mstate \<Rightarrow> mstate list" where
  "rmatch (Atom c) st =
     (case rest_of st of
        [] \<Rightarrow> []
      | x # xs \<Rightarrow> if cls_ok c x then [(x # fst st, xs, snd (snd st))] else [])"
| "rmatch Eps st = [st]"
| "rmatch (Cat a b) st = concat (map (rmatch b) (rmatch a st))"
| "rmatch (Alt a b) st = rmatch a st @ rmatch b st"
| "rmatch (Star a) st =
     concat (map (\<lambda>st'. if length (rest_of st') < length (rest_of st)
                         then rmatch (Star a) st' else [])
                 (rmatch a st)) @ [st]"
| "rmatch (StarLazy a) st =
     st # concat (map (\<lambda>st'. if length (rest_of st') < length (rest_of st)
                              then rmatch (StarLazy a) st' else [])
                      (rmatch a st))"
| "rmatch (Group n a) st =
     map (\<lambda>st'. (fst st', rest_of st',
                  (snd (snd st'))
                    (n \<mapsto> take (length (rest_of st) - length (rest_of st')) (rest_of st))))
         (rmatch a st)"
| "rmatch WordBoundary st =
     (if at_word (fst st) \<noteq> at_word (rest_of st) then [st] else [])"
  by pat_completeness auto
termination
  by (relation "measures [\<lambda>(r, st). size r, \<lambda>(r, st). length (rest_of st)]") auto

text \<open>The equations of the two stars call the matcher on the same pattern again.\<close>

declare rmatch.simps(5) [simp del]
declare rmatch.simps(6) [simp del]

text \<open>
  The leftmost match from a position on: the start position that matched, and the first
  result of the matcher there.
\<close>

fun search :: "regex \<Rightarrow> string \<Rightarrow> string \<Rightarrow> (string \<times> mstate) option" where
  "search r l [] =
     (case rmatch r (l, [], Map.empty) of [] \<Rightarrow> None | st # _ \<Rightarrow> Some ([], st))"
| "search r l (x # xs) =
     (case rmatch r (l, x # xs, Map.empty) of
        [] \<Rightarrow> search r (x # l) xs
      | st # _ \<Rightarrow> Some (x # xs, st))"

text \<open>
  The submatches of a match found in the text \<open>s\<close>: the whole match, then the text of
  each group, empty for a group that took no part.
\<close>

definition submatches :: "nat \<Rightarrow> string \<times> mstate \<Rightarrow> string list" where
  "submatches n m =
     take (length (fst m) - length (rest_of (snd m))) (fst m) #
     map (\<lambda>i. case snd (snd (snd m)) i of None \<Rightarrow> [] | Some x \<Rightarrow> x) [1..<Suc n]"

text \<open>\<^verbatim>\<open>MatchString\<close>, \<^verbatim>\<open>FindString\<close> and \<^verbatim>\<open>FindStringSubmatch\<close> (\<open>[]\<close> is \<^verbatim>\<open>nil\<close>).\<close>

definition MatchString :: "regex \<Rightarrow> string \<Rightarrow> bool" where
  "MatchString re s = (search re [] s \<noteq> None)"

definition FindStringSubmatch :: "regex \<Rightarrow> string \<Rightarrow> string list" where
  "FindStringSubmatch re s =
     (case search re [] s of None \<Rightarrow> [] | Some m \<Rightarrow> submatches (num_groups re) m)"

definition FindString :: "regex \<Rightarrow> string \<Rightarrow> string" where
  "FindString re s =
     (case search re [] s of None \<Rightarrow> [] | Some m \<Rightarrow> hd (submatches (num_groups re) m))"

text \<open>
  \<^verbatim>\<open>FindAllStringSubmatch(s, -1)\<close>: the loop of \<^verbatim>\<open>allMatches\<close>. \<open>l\<close> and \<open>s\<close> are
  the text before and after the position \<^verbatim>\<open>pos\<close>, which is \<open>length l\<close>;
  \<open>match_start\<close> and \<open>match_end\<close> are \<^verbatim>\<open>matches[0]\<close> and \<^verbatim>\<open>matches[1]\<close> of the
  match found from there. An empty match right after the previous match is not
  delivered, and after an empty match the search moves on by one character.
\<close>

definition match_start :: "string \<Rightarrow> string \<Rightarrow> string \<times> mstate \<Rightarrow> nat" where
  "match_start l s m = length l + (length s - length (fst m))"

definition match_end :: "string \<Rightarrow> string \<Rightarrow> string \<times> mstate \<Rightarrow> nat" where
  "match_end l s m = length l + (length s - length (rest_of (snd m)))"

definition deliver :: "regex \<Rightarrow> string \<Rightarrow> string \<Rightarrow> int \<Rightarrow> string \<times> mstate \<Rightarrow> string list list" where
  "deliver re l s prevMatchEnd m =
     (if match_end l s m = length l \<and> int (match_start l s m) = prevMatchEnd then []
      else [submatches (num_groups re) m])"

function allMatches :: "regex \<Rightarrow> string \<Rightarrow> string \<Rightarrow> int \<Rightarrow> string list list" where
  "allMatches re l s prevMatchEnd =
     (case search re l s of
        None \<Rightarrow> []
      | Some m \<Rightarrow>
          if match_end l s m = length l
          then (case s of
                  [] \<Rightarrow> deliver re l s prevMatchEnd m
                | x # xs \<Rightarrow>
                    deliver re l s prevMatchEnd m @ allMatches re (x # l) xs (int (match_end l s m)))
          else deliver re l s prevMatchEnd m @
               allMatches re (fst (snd m)) (rest_of (snd m)) (int (match_end l s m)))"
  by pat_completeness auto
termination
proof (relation "measure (\<lambda>(re, l, s, e). length s)")
  show "wf (measure (\<lambda>(re, l, s, e). length s))"
    by simp
qed (auto simp: match_end_def)

definition FindAllStringSubmatch :: "regex \<Rightarrow> string \<Rightarrow> string list list" where
  "FindAllStringSubmatch re s = allMatches re [] s (- 1)"

subsection \<open>The patterns of \<^verbatim>\<open>Parse\<close>\<close>

text \<open>\<^verbatim>\<open>CREATE TABLE \S+\.(\w+)(?:_\{[a-zA-Z]+\})?\<close>\<close>

definition tableNameRe :: regex where
  "tableNameRe =
     cats [lit ''CREATE TABLE '', Plus (Atom NonSpaceCls), Atom (Lit (CHR ''.'')),
           Group 1 (Plus (Atom WordCls)),
           Opt (cats [lit ''_{'', Plus (Atom AlphaCls), lit ''}''])]"

text \<open>
  The column pattern, a backquoted name, a type, the other clause and the comment:
  \<^verbatim>\<open>`(\w+)`\s+([A-Za-z]+\d*(\(\d+\))?)\s+(.*?)\s+COMMENT\s+'(.*?)'\<close>
\<close>

definition fieldRe :: regex where
  "fieldRe =
     cats [Atom (Lit (CHR 0x60)), Group 1 (Plus (Atom WordCls)), Atom (Lit (CHR 0x60)),
           Plus (Atom SpaceCls),
           Group 2 (cats [Plus (Atom AlphaCls), Star (Atom DigitCls),
                          Opt (Group 3 (cats [lit ''('', Plus (Atom DigitCls), lit '')'']))]),
           Plus (Atom SpaceCls),
           Group 4 (StarLazy (Atom Dot)),
           Plus (Atom SpaceCls), lit ''COMMENT'', Plus (Atom SpaceCls),
           Atom (Lit (CHR 0x27)), Group 5 (StarLazy (Atom Dot)), Atom (Lit (CHR 0x27))]"

text \<open>\<^verbatim>\<open>(?i)\bNOT\s+NULL\b\<close>\<close>

definition notNullRegex :: regex where
  "notNullRegex =
     cats [WordBoundary, litFold ''NOT'', Plus (Atom SpaceCls), litFold ''NULL'', WordBoundary]"

text \<open>\<^verbatim>\<open>(?i)(DEFAULT\s+NULL|NULL\b)\<close>\<close>

definition nullRegex :: regex where
  "nullRegex =
     Group 1 (Alt (cats [litFold ''DEFAULT'', Plus (Atom SpaceCls), litFold ''NULL''])
                  (cats [litFold ''NULL'', WordBoundary]))"

text \<open>\<^verbatim>\<open>\d+\<close>\<close>

definition digitsRe :: regex where
  "digitsRe = Plus (Atom DigitCls)"

section \<open>Data model\<close>

record FieldMeta =
  FieldName :: string
  FieldType :: string
  Comment :: string
  Validate :: string
  OriginalField :: string

record SQLParser =
  TableName :: string
  StructName :: string
  SecondStructName :: string
  Fields :: "FieldMeta list"
  TypeMappings :: "string \<rightharpoonup> string"
  NullableTypeMappings :: "string \<rightharpoonup> string"

text \<open>
  What a call can end with besides its result: an \<^verbatim>\<open>error\<close> value that it returns
  (the wrapped cause of a failed read or write), or a run-time panic (an index or a
  slice bound out of range), which no caller in the program recovers.
\<close>

datatype error =
    ReadFailed string    \<comment> \<open>\<^verbatim>\<open>fmt.Errorf\<close> around the cause of \<^verbatim>\<open>os.ReadFile\<close>\<close>
  | WriteFailed string   \<comment> \<open>\<^verbatim>\<open>fmt.Errorf\<close> around the cause of \<^verbatim>\<open>os.WriteFile\<close>\<close>

datatype failure = Error error | Panic

text \<open>
  The files the program sees: what \<^verbatim>\<open>os.ReadFile\<close> gives for a path (the cause of the
  failure or the content) and the paths on which \<^verbatim>\<open>os.WriteFile\<close> fails, with the cause.
\<close>

record filesystem =
  read_result :: "string \<Rightarrow> string + string"
  write_fault :: "string \<Rightarrow> string option"

definition ReadFile :: "filesystem \<Rightarrow> string \<Rightarrow> string + string" where
  "ReadFile fs path = read_result fs path"

definition WriteFile :: "filesystem \<Rightarrow> string \<Rightarrow> string \<Rightarrow> string + filesystem" where
  "WriteFile fs path content =
     (case write_fault fs path of
        Some cause \<Rightarrow> Inl cause
      | None \<Rightarrow> Inr (fs\<lparr>read_result := (read_result fs)(path := Inr content)\<rparr>))"

text \<open>Reading a map of Go at a key it does not have gives the zero value, the empty string.\<close>

definition lookup :: "(string \<rightharpoonup> string) \<Rightarrow> string \<Rightarrow> string" where
  "lookup m k = (case m k of None \<Rightarrow> [] | Some v \<Rightarrow> v)"

section \<open>Type mapper\<close>

definition typeTable :: "(string \<times> string) list" where
  "typeTable =
     [(''INT'', ''int32''), (''SMALLINT'', ''int32''), (''TINYINT'', ''int32''),
      (''MEDIUMINT'', ''int32''), (''BIGINT'', ''int64''), (''VARCHAR'', ''string''),
      (''CHAR'', ''string''), (''TEXT'', ''string''), (''JSON'', ''string''),
      (''DATETIME'', ''datetime.DateTime''), (''DOUBLE'', ''float64''),
      (''FLOAT'', ''float32'')]"

definition nullableTypeTable :: "(string \<times> string) list" where
  "nullableTypeTable =
     [(''INT'', ''sql.NullInt32''), (''SMALLINT'', ''sql.NullInt32''),
      (''TINYINT'', ''sql.NullInt32''), (''MEDIUMINT'', ''sql.NullInt32''),
      (''BIGINT'', ''sql.NullInt64''), (''VARCHAR'', ''sql.NullString''),
      (''CHAR'', ''sql.NullString''), (''TEXT'', ''sql.NullString''),
      (''JSON'', ''sql.NullString''), (''DATETIME'', ''datetime.NullDateTime''),
      (''DOUBLE'', ''sql.NullFloat64''), (''FLOAT'', ''sql.NullFloat32'')]"

definition typeMappings :: "string \<rightharpoonup> string" where
  "typeMappings = map_of typeTable"

definition nullableTypeMappings :: "string \<rightharpoonup> string" where
  "nullableTypeMappings = map_of nullableTypeTable"

text \<open>
  The nullable wrappers: the type names that the nullable table can give.
\<close>

definition is_nullable_wrapper :: "string \<Rightarrow> bool" where
  "is_nullable_wrapper t = (t \<in> set (map snd nullableTypeTable))"

text \<open>\<^verbatim>\<open>NewSQLParser(structNames ...string)\<close>\<close>

definition NewSQLParser :: "string list \<Rightarrow> SQLParser" where
  "NewSQLParser structNames =
     (let parser = \<lparr>TableName = [], StructName = [], SecondStructName = [], Fields = [],
                     TypeMappings = typeMappings,
                     NullableTypeMappings = nullableTypeMappings\<rparr>;
          parser = (if length structNames > 0 then parser\<lparr>StructName := structNames ! 0\<rparr>
                    else parser);
          parser = (if length structNames > 1 then parser\<lparr>SecondStructName := structNames ! 1\<rparr>
                    else parser)
      in parser)"

section \<open>Schema extractor\<close>

text \<open>
  The body of the loop over the matches of the column pattern. \<open>match ! 1\<close> is the
  column name, \<open>match ! 2\<close> the type token, \<open>match ! 4\<close> the other clause and
  \<open>match ! 5\<close> the comment.
\<close>

definition sqlType_of :: "string list \<Rightarrow> string" where
  "sqlType_of match = ToUpper (hd (Split (match ! 2) (CHR ''('')))"

definition isNullable :: "string \<Rightarrow> bool" where
  "isNullable otherPart =
     (let hasNotNull = MatchString notNullRegex otherPart in
      if \<not> hasNotNull then MatchString nullRegex otherPart else False)"

definition goType :: "SQLParser \<Rightarrow> string list \<Rightarrow> string" where
  "goType p match =
     (if isNullable (match ! 4) then lookup (NullableTypeMappings p) (sqlType_of match)
      else lookup (TypeMappings p) (sqlType_of match))"

text \<open>The marker of an encrypted column, two Chinese characters, in UTF-8.\<close>

definition encryption_marker :: string where
  "encryption_marker = [CHR 0xE5, CHR 0x8A, CHR 0xA0, CHR 0xE5, CHR 0xAF, CHR 0x86]"

definition validate_of :: "string list \<Rightarrow> string" where
  \<open>validate_of match =
     (if HasPrefix (match ! 2) ''VARCHAR''
      then (let size = FindString digitsRe (match ! 2) in ''validate:"max='' @ size @ ''"'')
      else if Contains (match ! 4) encryption_marker then ''validate:"omitempty"''
      else [])\<close>

definition field_of_match :: "SQLParser \<Rightarrow> string list \<Rightarrow> FieldMeta" where
  "field_of_match p match =
     \<lparr>FieldName = ToPascalCase (match ! 1),
      FieldType = goType p match,
      Comment = match ! 5,
      Validate = validate_of match,
      OriginalField = match ! 1\<rparr>"

text \<open>
  The loop over the matches. A match shorter than 4 is skipped; indexing a match of
  length 4 or 5 at 4 or at 5 panics.
\<close>

fun Parse_fields :: "string list list \<Rightarrow> SQLParser \<Rightarrow> failure option \<times> SQLParser" where
  "Parse_fields [] p = (None, p)"
| "Parse_fields (match # matches) p =
     (if length match < 4 then Parse_fields matches p
      else if length match < 6 then (Some Panic, p)
      else Parse_fields matches (p\<lparr>Fields := Fields p @ [field_of_match p match]\<rparr>))"

text \<open>
  \<^verbatim>\<open>Parse\<close> returns the \<^verbatim>\<open>error\<close> (\<open>None\<close> is \<^verbatim>\<open>nil\<close>) and leaves the parser
  changed.
\<close>

definition Parse :: "string \<Rightarrow> SQLParser \<Rightarrow> failure option \<times> SQLParser" where
  "Parse sqlContent p =
     (let tableMatch = FindStringSubmatch tableNameRe sqlContent;
          matches = FindAllStringSubmatch fieldRe sqlContent
      in if length tableMatch > 0
         then (if length tableMatch < 2 then (Some Panic, p)
               else (let p = p\<lparr>TableName := tableMatch ! 1\<rparr>;
                         p = (if StructName p = []
                              then p\<lparr>StructName := ToPascalCase (TableName p)\<rparr> else p)
                     in Parse_fields matches p))
         else Parse_fields matches p)"

definition LoadSQLFile :: "string \<Rightarrow> SQLParser \<times> filesystem \<Rightarrow> failure option \<times> SQLParser" where
  "LoadSQLFile filePath pf =
     (case ReadFile (snd pf) filePath of
        Inl cause \<Rightarrow> (Some (Error (ReadFailed cause)), fst pf)
      | Inr content \<Rightarrow> Parse content (fst pf))"

section \<open>The nullability policy, the size tag and the value accessors, as the specification words them\<close>


fun occurs :: "(string \<Rightarrow> string \<Rightarrow> bool) \<Rightarrow> string \<Rightarrow> string \<Rightarrow> bool" where
  "occurs P before [] = P before []"
| "occurs P before (x # xs) = (P before (x # xs) \<or> occurs P (x # before) xs)"







text \<open>The first run of digits of a text.\<close>

definition first_digit_run :: "string \<Rightarrow> string" where
  "first_digit_run s = takeWhile isDigit (dropWhile (\<lambda>c. \<not> isDigit c) s)"

text \<open>
  What a builder call appends to the PO field it reads: the value accessor of a nullable
  wrapper, for each wrapper that the \<^verbatim>\<open>switch\<close> of the conversion knows; the conversion
  of a \<^verbatim>\<open>datetime.DateTime\<close>; nothing for any other type, which is read directly.
\<close>

definition accessor :: "string \<Rightarrow> string" where
  "accessor t =
     (if t = ''sql.NullString'' then ''.String''
      else if t = ''sql.NullInt32'' then ''.Int32''
      else if t = ''sql.NullInt64'' then ''.Int64''
      else if t = ''sql.NullFloat64'' then ''.Float64''
      else if t = ''datetime.NullDateTime'' then ''.Time.Time()''
      else if t = ''datetime.DateTime'' then ''.Time()''
      else [])"

section \<open>Code emitter\<close>

text \<open>
  \<^verbatim>\<open>%-30s\<close> of \<^verbatim>\<open>fmt.Sprintf\<close>: the text, then blanks up to the width (counted in
  characters, which are bytes on ASCII text).
\<close>

definition pad :: "nat \<Rightarrow> string \<Rightarrow> string" where
  "pad n s = s @ replicate (n - length s) (CHR '' '')"

text \<open>A line of the PO struct.\<close>

definition po_line :: "FieldMeta \<Rightarrow> string" where
  \<open>po_line field =
     (let line = [CHR 0x09] @ pad 30 (FieldName field) @ '' '' @ pad 20 (FieldType field) @
                 '' '' @ [CHR 0x60] @ ''db:"'' @ OriginalField field @ ''"'';
          line = (if Validate field \<noteq> [] then line @ '' '' @ Validate field else line);
          line = line @ [CHR 0x60] @ '' // '' @ Comment field
      in line @ ''\<newline>'')\<close>

text \<open>
  \<^verbatim>\<open>strings.ToLower(field.FieldName[:1]) + field.FieldName[1:]\<close>: slicing an empty
  name at 1 is out of range, a panic (\<open>None\<close>).
\<close>

definition privateField :: "string \<Rightarrow> string option" where
  "privateField name =
     (if length name < 1 then None else Some (ToLower (take 1 name) @ drop 1 name))"

definition nullableToBasic :: "string \<rightharpoonup> string" where
  "nullableToBasic = map_of
     [(''sql.NullString'', ''string''), (''sql.NullInt32'', ''int32''),
      (''sql.NullInt64'', ''int64''), (''sql.NullFloat32'', ''float32''),
      (''sql.NullFloat64'', ''float64''), (''datetime.NullDateTime'', ''time.Time'')]"

definition entity_type :: "string \<Rightarrow> string" where
  "entity_type fieldType =
     (case nullableToBasic fieldType of
        Some basicType \<Rightarrow> basicType
      | None \<Rightarrow> if fieldType = ''datetime.DateTime'' then ''time.Time'' else fieldType)"

text \<open>A line of the entity struct.\<close>

definition entity_line :: "FieldMeta \<Rightarrow> string option" where
  "entity_line field =
     (case privateField (FieldName field) of
        None \<Rightarrow> None
      | Some private \<Rightarrow>
          Some ([CHR 0x09] @ pad 30 private @ '' '' @ pad 20 (entity_type (FieldType field)) @
                '' // '' @ Comment field @ ''\<newline>''))"

text \<open>The \<^verbatim>\<open>switch\<close> of the PO to entity conversion: what is read from the PO field.\<close>

definition entity_access :: "FieldMeta \<Rightarrow> string" where
  "entity_access field =
     (let fieldAccess = FieldName field; t = FieldType field in
      if t = ''sql.NullString'' then fieldAccess @ ''.String''
      else if t = ''datetime.NullDateTime'' then fieldAccess @ ''.Time.Time()''
      else if t = ''datetime.DateTime'' then fieldAccess @ ''.Time()''
      else if t = ''sql.NullInt32'' then fieldAccess @ ''.Int32''
      else if t = ''sql.NullInt64'' then fieldAccess @ ''.Int64''
      else if t = ''sql.NullFloat64'' then fieldAccess @ ''.Float64''
      else fieldAccess)"

text \<open>A call of the builder in the PO to entity conversion.\<close>

definition to_entity_line :: "FieldMeta \<Rightarrow> string option" where
  "to_entity_line field =
     (case privateField (FieldName field) of
        None \<Rightarrow> None
      | Some private \<Rightarrow>
          Some ([CHR 0x09, CHR 0x09] @ ''With'' @ Title private @
                ''(p.'' @ entity_access field @ '').\<newline>''))"

text \<open>The \<^verbatim>\<open>switch\<close> of the entity to PO conversion.\<close>

definition po_access :: "FieldMeta \<Rightarrow> string \<Rightarrow> string" where
  "po_access field private =
     (let fieldAccess = ''e.'' @ Title private @ ''()''; t = FieldType field in
      if t = ''sql.NullString'' then ''sql.NullString{String: '' @ fieldAccess @ '', Valid: true}''
      else if t = ''datetime.NullDateTime'' then ''TimeToNullDateTime('' @ fieldAccess @ '')''
      else if t = ''datetime.DateTime'' then ''datetime.NewDateTime('' @ fieldAccess @ '')''
      else if t = ''sql.NullInt32'' \<or> t = ''sql.NullInt64'' \<or> t = ''sql.NullFloat64''
      then (let baseType = TrimPrefix t ''sql.Null'' in
            t @ ''{'' @ Title baseType @ '': '' @ fieldAccess @ '', Valid: true}'')
      else fieldAccess)"

text \<open>A field of the struct literal in the entity to PO conversion.\<close>

definition to_po_line :: "FieldMeta \<Rightarrow> string option" where
  "to_po_line field =
     (case privateField (FieldName field) of
        None \<Rightarrow> None
      | Some private \<Rightarrow>
          Some ([CHR 0x09, CHR 0x09] @ pad 15 (FieldName field) @ '': '' @
                po_access field private @ '',\<newline>''))"

text \<open>
  A loop that writes one line for each field to the builder; a panic in it (\<open>None\<close>)
  ends the call.
\<close>

fun write_lines :: "(FieldMeta \<Rightarrow> string option) \<Rightarrow> FieldMeta list \<Rightarrow> string option" where
  "write_lines f [] = Some []"
| "write_lines f (field # others) =
     (case f field of
        None \<Rightarrow> None
      | Some line \<Rightarrow>
          (case write_lines f others of None \<Rightarrow> None | Some rest \<Rightarrow> Some (line @ rest)))"

text \<open>The loop that sets \<^verbatim>\<open>needTimeFunc\<close>, leaving at the first field that needs it.\<close>

fun needTimeFunc :: "FieldMeta list \<Rightarrow> bool" where
  "needTimeFunc [] = False"
| "needTimeFunc (field # others) =
     (if FieldType field = ''datetime.NullDateTime'' then True else needTimeFunc others)"

text \<open>The helper that is written after the conversions, a raw string of the source.\<close>

definition timeFuncText :: string where
  "timeFuncText =
     ''// TimeToNullDateTime Time '' @
     [CHR 0xE8, CHR 0xBD, CHR 0xAC, CHR 0xE6, CHR 0x88, CHR 0x90] @
     '' datetime.NullDateTime\<newline>'' @
     ''func TimeToNullDateTime(t time.Time) datetime.NullDateTime {\<newline>'' @
     [CHR 0x09] @
     ''if !t.IsZero() {\<newline>'' @
     [CHR 0x09, CHR 0x09] @
     ''return datetime.NullDateTime{Time: datetime.NewDateTime(t), Valid: true}\<newline>'' @
     [CHR 0x09] @
     ''}\<newline>'' @
     [CHR 0x09] @
     ''return datetime.NullDateTime{Valid: false}\<newline>}''"

text \<open>The text before the entity part: the package clause, the imports and the PO struct.\<close>

definition po_part :: "SQLParser \<Rightarrow> string" where
  \<open>po_part p =
     ''package po\<newline>\<newline>'' @
     ''import (\<newline>'' @ [CHR 0x09] @
     ''"git.woa.com/prd_base_pay_go/paycomm/datetime"\<newline>'' @ [CHR 0x09] @
     ''"github.com/go-playground/validator/v10"\<newline>)\<newline>\<newline>'' @
     ''// '' @ StructName p @ '' Po'' @
     [CHR 0xE7, CHR 0xBB, CHR 0x93, CHR 0xE6, CHR 0x9E, CHR 0x84, CHR 0xE4, CHR 0xBD, CHR 0x93] @
     ''\<newline>'' @
     ''type '' @ StructName p @ '' struct {\<newline>'' @
     concat (map po_line (Fields p)) @
     ''}\<newline>\<newline>\<newline>''\<close>

text \<open>
  The part written when a second struct name is given: the entity struct, its
  \<^verbatim>\<open>Validate\<close> method, the two conversions and, when needed, the helper.
\<close>

definition entity_part :: "SQLParser \<Rightarrow> string option" where
  "entity_part p =
     (case write_lines entity_line (Fields p) of
        None \<Rightarrow> None
      | Some entityLines \<Rightarrow>
     (case write_lines to_entity_line (Fields p) of
        None \<Rightarrow> None
      | Some toEntityLines \<Rightarrow>
     (case write_lines to_po_line (Fields p) of
        None \<Rightarrow> None
      | Some toPoLines \<Rightarrow>
          Some (''package entity\<newline>\<newline>'' @
                ''//go:generate entitytool -source=$GOFILE -entity='' @
                  SecondStructName p @ '' \<newline>\<newline>'' @
                ''// '' @ SecondStructName p @ '' entity'' @
                  [CHR 0xE7, CHR 0xBB, CHR 0x93, CHR 0xE6, CHR 0x9E, CHR 0x84,
                   CHR 0xE4, CHR 0xBD, CHR 0x93] @ ''\<newline>'' @
                ''type '' @ SecondStructName p @ '' struct {\<newline>'' @
                entityLines @
                ''}\<newline>\<newline>'' @
                ''func (e *'' @ SecondStructName p @ '') Validate() error {\<newline>'' @
                [CHR 0x09] @ ''return nil\<newline>}\<newline>\<newline>'' @
                ''// To'' @ SecondStructName p @ ''Entity po to entity\<newline>'' @
                ''func To'' @ SecondStructName p @ ''Entity(p *po.'' @ StructName p @
                  '') (*entity.'' @ SecondStructName p @ '', error) {\<newline>'' @
                [CHR 0x09] @ ''return entity.New'' @ SecondStructName p @ ''Builder().\<newline>'' @
                toEntityLines @
                [CHR 0x09, CHR 0x09] @ ''Build()\<newline>}\<newline>\<newline>'' @
                ''// To'' @ StructName p @ '' entity to po\<newline>'' @
                ''func To'' @ StructName p @ ''(e *entity.'' @ SecondStructName p @
                  '') (*po.'' @ StructName p @ '', error) {\<newline>'' @
                [CHR 0x09] @ ''return &po.'' @ StructName p @ ''{\<newline>'' @
                toPoLines @
                [CHR 0x09] @ ''}, nil\<newline>}\<newline>\<newline>'' @
                (if needTimeFunc (Fields p) then timeFuncText else [])))))"

text \<open>The whole text of the builder, or the panic.\<close>

definition render :: "SQLParser \<Rightarrow> string option" where
  "render p =
     (if SecondStructName p \<noteq> []
      then (case entity_part p of None \<Rightarrow> None | Some e \<Rightarrow> Some (po_part p @ e))
      else Some (po_part p))"

text \<open>
  \<^verbatim>\<open>GenerateStruct\<close>. \<^verbatim>\<open>filepath.Join\<close> is a parameter, \<open>joinPath\<close>. The
  result is what the call returns (the file name, or the failure) with the parser and the
  files as they are after the call.
\<close>

definition GenerateStruct ::
  "(string \<Rightarrow> string \<Rightarrow> string) \<Rightarrow> string \<Rightarrow> SQLParser \<times> filesystem \<Rightarrow>
     (failure + string) \<times> SQLParser \<times> filesystem" where
  "GenerateStruct joinPath outputDir pf =
     (let p = fst pf; fs = snd pf;
          fileName = joinPath outputDir (ToSnakeCase (SecondStructName p) @ ''_template.go'')
      in case render p of
           None \<Rightarrow> (Inl Panic, p, fs)
         | Some text \<Rightarrow>
             (case WriteFile fs fileName text of
                Inl cause \<Rightarrow> (Inl (Error (WriteFailed cause)), p, fs)
              | Inr fs' \<Rightarrow> (Inr fileName, p, fs')))"

definition GetOutputPath :: "(string \<Rightarrow> string \<Rightarrow> string) \<Rightarrow> string \<Rightarrow> SQLParser \<Rightarrow> string" where
  "GetOutputPath joinPath outputDir p =
     joinPath outputDir (ToSnakeCase (SecondStructName p) @ ''_template.go'')"

section \<open>The helper as Go code\<close>

text \<open>
  The helper is Go code that the generated file declares. The part of Go that it is
  written in: identifiers, the constants \<^verbatim>\<open>true\<close> and \<^verbatim>\<open>false\<close>, \<^verbatim>\<open>!x\<close>, a call of a
  method without arguments, a call of a function of one argument and a composite literal
  with keyed fields; \<^verbatim>\<open>return\<close> and \<^verbatim>\<open>if\<close> without \<^verbatim>\<open>else\<close>; a function of one
  parameter.
\<close>

datatype gexpr =
    Ident string
  | BoolLit bool
  | Negate gexpr
  | CallMethod gexpr string
  | CallFunc string gexpr
  | Composite string gfields
and gfields =
    NoElem
  | Elem string gexpr gfields

datatype gstmt =
    ReturnStmt gexpr
  | IfStmt gexpr gblock
and gblock =
    NoStmt
  | Stmt gstmt gblock

datatype gfunc = Func string string string string gblock

text \<open>The source text of an expression, of a statement at a depth of indentation, and of a function.\<close>

fun print_expr :: "gexpr \<Rightarrow> string" and print_fields :: "gfields \<Rightarrow> string" where
  "print_expr (Ident x) = x"
| "print_expr (BoolLit b) = (if b then ''true'' else ''false'')"
| "print_expr (Negate e) = ''!'' @ print_expr e"
| "print_expr (CallMethod e m) = print_expr e @ ''.'' @ m @ ''()''"
| "print_expr (CallFunc f e) = f @ ''('' @ print_expr e @ '')''"
| "print_expr (Composite ty fs) = ty @ ''{'' @ print_fields fs @ ''}''"
| "print_fields NoElem = []"
| "print_fields (Elem k v NoElem) = k @ '': '' @ print_expr v"
| "print_fields (Elem k v (Elem k' v' rest)) =
     k @ '': '' @ print_expr v @ '', '' @ print_fields (Elem k' v' rest)"

fun print_stmt :: "nat \<Rightarrow> gstmt \<Rightarrow> string" and print_block :: "nat \<Rightarrow> gblock \<Rightarrow> string" where
  "print_stmt n (ReturnStmt e) = replicate n (CHR 0x09) @ ''return '' @ print_expr e @ ''\<newline>''"
| "print_stmt n (IfStmt c b) =
     replicate n (CHR 0x09) @ ''if '' @ print_expr c @ '' {\<newline>'' @
     print_block (Suc n) b @ replicate n (CHR 0x09) @ ''}\<newline>''"
| "print_block n NoStmt = []"
| "print_block n (Stmt s b) = print_stmt n s @ print_block n b"

fun print_func :: "gfunc \<Rightarrow> string" where
  "print_func (Func name param ptype rtype body) =
     ''func '' @ name @ ''('' @ param @ '' '' @ ptype @ '') '' @ rtype @ '' {\<newline>'' @
     print_block 1 body @ ''}''"

text \<open>
  The values of the helper: a \<^verbatim>\<open>time.Time\<close>, a \<^verbatim>\<open>datetime.DateTime\<close>, a \<^verbatim>\<open>bool\<close> and
  a \<^verbatim>\<open>datetime.NullDateTime\<close>, a struct with the fields \<^verbatim>\<open>Time\<close> and \<^verbatim>\<open>Valid\<close>.
  \<^verbatim>\<open>t.IsZero\<close>, \<^verbatim>\<open>datetime.NewDateTime\<close> and the zero value of \<^verbatim>\<open>datetime.DateTime\<close>
  are parameters: the package \<^verbatim>\<open>datetime\<close> is not part of the program. A field that a
  composite literal does not name has its zero value. A statement returns a value, falls
  through to the next statement, or is stuck on an expression without a value.
\<close>

record 'd NullDateTime =
  Time :: 'd
  Valid :: bool

datatype ('t, 'd) gvalue =
    TimeV 't
  | DateTimeV 'd
  | BoolV bool
  | NullDateTimeV "'d NullDateTime"

datatype 'v outcome = Returned 'v | FellThrough | Stuck

fun eval_expr ::
  "('t \<Rightarrow> bool) \<Rightarrow> ('t \<Rightarrow> 'd) \<Rightarrow> 'd \<Rightarrow> (string \<rightharpoonup> ('t, 'd) gvalue) \<Rightarrow> gexpr \<Rightarrow>
     ('t, 'd) gvalue option"
  and fill_fields ::
  "('t \<Rightarrow> bool) \<Rightarrow> ('t \<Rightarrow> 'd) \<Rightarrow> 'd \<Rightarrow> (string \<rightharpoonup> ('t, 'd) gvalue) \<Rightarrow> gfields \<Rightarrow>
     'd NullDateTime \<Rightarrow> 'd NullDateTime option" where
  "eval_expr IsZero NewDateTime zeroDateTime env (Ident x) = env x"
| "eval_expr IsZero NewDateTime zeroDateTime env (BoolLit b) = Some (BoolV b)"
| "eval_expr IsZero NewDateTime zeroDateTime env (Negate e) =
     (case eval_expr IsZero NewDateTime zeroDateTime env e of
        Some (BoolV b) \<Rightarrow> Some (BoolV (\<not> b))
      | _ \<Rightarrow> None)"
| "eval_expr IsZero NewDateTime zeroDateTime env (CallMethod e m) =
     (case eval_expr IsZero NewDateTime zeroDateTime env e of
        Some (TimeV x) \<Rightarrow> if m = ''IsZero'' then Some (BoolV (IsZero x)) else None
      | _ \<Rightarrow> None)"
| "eval_expr IsZero NewDateTime zeroDateTime env (CallFunc f e) =
     (case eval_expr IsZero NewDateTime zeroDateTime env e of
        Some (TimeV x) \<Rightarrow>
          if f = ''datetime.NewDateTime'' then Some (DateTimeV (NewDateTime x)) else None
      | _ \<Rightarrow> None)"
| "eval_expr IsZero NewDateTime zeroDateTime env (Composite ty fs) =
     (if ty = ''datetime.NullDateTime''
      then map_option NullDateTimeV
             (fill_fields IsZero NewDateTime zeroDateTime env fs
                \<lparr>Time = zeroDateTime, Valid = False\<rparr>)
      else None)"
| "fill_fields IsZero NewDateTime zeroDateTime env NoElem r = Some r"
| "fill_fields IsZero NewDateTime zeroDateTime env (Elem k v rest) r =
     (case eval_expr IsZero NewDateTime zeroDateTime env v of
        Some (DateTimeV d) \<Rightarrow>
          if k = ''Time'' then fill_fields IsZero NewDateTime zeroDateTime env rest (r\<lparr>Time := d\<rparr>)
          else None
      | Some (BoolV b) \<Rightarrow>
          if k = ''Valid''
          then fill_fields IsZero NewDateTime zeroDateTime env rest (r\<lparr>Valid := b\<rparr>)
          else None
      | _ \<Rightarrow> None)"

fun exec_stmt ::
  "('t \<Rightarrow> bool) \<Rightarrow> ('t \<Rightarrow> 'd) \<Rightarrow> 'd \<Rightarrow> (string \<rightharpoonup> ('t, 'd) gvalue) \<Rightarrow> gstmt \<Rightarrow>
     ('t, 'd) gvalue outcome"
  and exec_block ::
  "('t \<Rightarrow> bool) \<Rightarrow> ('t \<Rightarrow> 'd) \<Rightarrow> 'd \<Rightarrow> (string \<rightharpoonup> ('t, 'd) gvalue) \<Rightarrow> gblock \<Rightarrow>
     ('t, 'd) gvalue outcome" where
  "exec_stmt IsZero NewDateTime zeroDateTime env (ReturnStmt e) =
     (case eval_expr IsZero NewDateTime zeroDateTime env e of
        Some v \<Rightarrow> Returned v
      | None \<Rightarrow> Stuck)"
| "exec_stmt IsZero NewDateTime zeroDateTime env (IfStmt c b) =
     (case eval_expr IsZero NewDateTime zeroDateTime env c of
        Some (BoolV cond) \<Rightarrow>
          if cond then exec_block IsZero NewDateTime zeroDateTime env b else FellThrough
      | _ \<Rightarrow> Stuck)"
| "exec_block IsZero NewDateTime zeroDateTime env NoStmt = FellThrough"
| "exec_block IsZero NewDateTime zeroDateTime env (Stmt s b) =
     (case exec_stmt IsZero NewDateTime zeroDateTime env s of
        FellThrough \<Rightarrow> exec_block IsZero NewDateTime zeroDateTime env b
      | result \<Rightarrow> result)"

fun call_func ::
  "('t \<Rightarrow> bool) \<Rightarrow> ('t \<Rightarrow> 'd) \<Rightarrow> 'd \<Rightarrow> gfunc \<Rightarrow> ('t, 'd) gvalue \<Rightarrow> ('t, 'd) gvalue outcome" where
  "call_func IsZero NewDateTime zeroDateTime (Func name param ptype rtype body) arg =
     exec_block IsZero NewDateTime zeroDateTime (\<lambda>x. if x = param then Some arg else None) body"

text \<open>The helper: the comment line of the text, and the function that the text declares.\<close>

definition helper_comment :: string where
  "helper_comment =
     ''// TimeToNullDateTime Time '' @
     [CHR 0xE8, CHR 0xBD, CHR 0xAC, CHR 0xE6, CHR 0x88, CHR 0x90] @
     '' datetime.NullDateTime\<newline>''"

definition helper_decl :: gfunc where
  "helper_decl =
     Func ''TimeToNullDateTime'' ''t'' ''time.Time'' ''datetime.NullDateTime''
       (Stmt (IfStmt (Negate (CallMethod (Ident ''t'') ''IsZero''))
               (Stmt (ReturnStmt (Composite ''datetime.NullDateTime''
                               (Elem ''Time'' (CallFunc ''datetime.NewDateTime'' (Ident ''t''))
                               (Elem ''Valid'' (BoolLit True) NoElem))))
                NoStmt))
       (Stmt (ReturnStmt (Composite ''datetime.NullDateTime''
                       (Elem ''Valid'' (BoolLit False) NoElem)))
        NoStmt))"

section \<open>Notions of the proofs\<close>

text \<open>A text without a line break, and a descriptor all of whose texts are of that kind.\<close>

definition single_line :: "string \<Rightarrow> bool" where
  "single_line s = (CHR 0x0A \<notin> set s)"

definition single_line_field :: "FieldMeta \<Rightarrow> bool" where
  "single_line_field f =
     (single_line (FieldName f) \<and> single_line (FieldType f) \<and> single_line (Comment f) \<and>
      single_line (Validate f) \<and> single_line (OriginalField f))"

text \<open>
  A pattern that cannot consume a line break, a pattern all of whose groups are of that
  kind, and a table of captured texts none of which holds a line break.
\<close>

fun one_line :: "regex \<Rightarrow> bool" where
  "one_line (Atom c) = (\<not> cls_ok c (CHR 0x0A))"
| "one_line Eps = True"
| "one_line (Cat a b) = (one_line a \<and> one_line b)"
| "one_line (Alt a b) = (one_line a \<and> one_line b)"
| "one_line (Star a) = one_line a"
| "one_line (StarLazy a) = one_line a"
| "one_line (Group n a) = one_line a"
| "one_line WordBoundary = True"

fun groups_one_line :: "regex \<Rightarrow> bool" where
  "groups_one_line (Atom c) = True"
| "groups_one_line Eps = True"
| "groups_one_line (Cat a b) = (groups_one_line a \<and> groups_one_line b)"
| "groups_one_line (Alt a b) = (groups_one_line a \<and> groups_one_line b)"
| "groups_one_line (Star a) = groups_one_line a"
| "groups_one_line (StarLazy a) = groups_one_line a"
| "groups_one_line (Group n a) = (one_line a \<and> groups_one_line a)"
| "groups_one_line WordBoundary = True"

definition captures_one_line :: "(nat \<rightharpoonup> string) \<Rightarrow> bool" where
  "captures_one_line g = (\<forall>n x. g n = Some x \<longrightarrow> CHR 0x0A \<notin> set x)"

text \<open>
  The helper's text contains a line break followed by \<^verbatim>\<open>func Ti\<close>. \<open>marker_scan k t\<close>
  reads \<open>t\<close> with \<open>k\<close> characters of that marker just read: the result is how many
  characters of the marker end at the end of \<open>t\<close>, and it stays 8 once the whole marker
  has been read.
\<close>

definition helper_marker :: string where
  "helper_marker = CHR 0x0A # ''func Ti''"

fun marker_step :: "nat \<Rightarrow> char \<Rightarrow> nat" where
  "marker_step k c =
     (if k = 8 then 8
      else if c = CHR 0x0A then 1
      else if k = 1 \<and> c = CHR ''f'' then 2
      else if k = 2 \<and> c = CHR ''u'' then 3
      else if k = 3 \<and> c = CHR ''n'' then 4
      else if k = 4 \<and> c = CHR ''c'' then 5
      else if k = 5 \<and> c = CHR '' '' then 6
      else if k = 6 \<and> c = CHR ''T'' then 7
      else if k = 7 \<and> c = CHR ''i'' then 8
      else 0)"

fun marker_scan :: "nat \<Rightarrow> string \<Rightarrow> nat" where
  "marker_scan k [] = k"
| "marker_scan k (c # cs) = marker_scan (marker_step k c) cs"

section \<open>Properties of the naming transformer\<close>

lemma Split_nonempty: "Split s sep \<noteq> []"
  by (induction s) auto

lemma of_char_toUpper: "isLower c \<Longrightarrow> (of_char (toUpper c) :: nat) = of_char c - 32"
proof -
  assume l: "isLower c"
  then have "(of_char c :: nat) - 32 < 256"
    unfolding isLower_def by arith
  with l show ?thesis
    by (simp add: toUpper_def of_char_of)
qed

lemma isUpper_toUpper: "isLower c \<Longrightarrow> isUpper (toUpper c)"
  unfolding isUpper_def isLower_def
  using of_char_toUpper [of c] unfolding isLower_def by arith

lemma toLower_toUpper: "isLower c \<Longrightarrow> toLower (toUpper c) = c"
proof -
  assume l: "isLower c"
  then have "(of_char c :: nat) - 32 + 32 = of_char c"
    unfolding isLower_def by arith
  with l show ?thesis
    by (simp add: toLower_def isUpper_toUpper of_char_toUpper)
qed

lemma lower_digit_not_upper: "isLower c \<or> isDigit c \<or> c = CHR ''_'' \<Longrightarrow> \<not> isUpper c"
  by (auto simp: isLower_def isDigit_def isUpper_def)

lemma lower_digit_not_separator: "isLower c \<or> isDigit c \<Longrightarrow> \<not> isSeparator c"
  by (auto simp: isSeparator_def)

lemma Title_from_plain:
  "\<not> isSeparator prev \<Longrightarrow> \<forall>c \<in> set rs. \<not> isSeparator c \<Longrightarrow> Title_from prev rs = rs"
  by (induction rs arbitrary: prev) auto

lemma Title_capitalize:
  "\<forall>c \<in> set part. \<not> isSeparator c \<Longrightarrow> Title part = capitalize part"
  by (cases part) (simp_all add: Title_def capitalize_def isSeparator_def isDigit_def
      isLower_def isUpper_def Title_from_plain)

lemma Join_empty_sep: "Join ps [] = concat ps"
  by (induction ps "[] :: string" rule: Join.induct) simp_all

lemma Join_Cons: "Join (p # ps) sep = p @ concat (map (\<lambda>q. sep @ q) ps)"
  by (induction ps arbitrary: p) simp_all

lemma Split_Cons: "\<exists>p ps. Split s sep = p # ps"
  by (cases "Split s sep") (simp_all add: Split_nonempty)

lemma Join_Split: "Join (Split s sep) [sep] = s"
proof (induction s)
  case Nil
  then show ?case by simp
next
  case (Cons c cs)
  obtain p ps where ps: "Split cs sep = p # ps"
    using Split_Cons by blast
  with Cons show ?case
    by (simp add: Join_Cons)
qed

lemma Split_chars: "part \<in> set (Split s sep) \<Longrightarrow> set part \<subseteq> set s - {sep}"
proof (induction s arbitrary: part)
  case Nil
  then show ?case by simp
next
  case (Cons x xs)
  obtain p ps where ps: "Split xs sep = p # ps"
    using Split_Cons by blast
  then have "set p \<subseteq> set xs - {sep}" and "\<forall>q \<in> set ps. set q \<subseteq> set xs - {sep}"
    using Cons.IH by simp_all
  with Cons.prems ps show ?case
    by (auto split: if_splits)
qed

lemma loop_plain:
  "\<forall>c \<in> set cs. \<not> isUpper c \<Longrightarrow>
   ToSnakeCase_loop i (cs @ rest) = cs @ ToSnakeCase_loop (i + length cs) rest"
  by (induction cs arbitrary: i) simp_all

lemma loop_capitalize:
  assumes "part \<noteq> []" "isLower (hd part)" "\<forall>c \<in> set part. \<not> isUpper c"
  shows "ToSnakeCase_loop i (capitalize part @ rest) =
         (if i > 0 then ''_'' else []) @ part @ ToSnakeCase_loop (i + length part) rest"
proof -
  from assms(1) obtain c cs where p: "part = c # cs"
    by (cases part) auto
  with assms have c: "isLower c" and cs: "\<forall>c \<in> set cs. \<not> isUpper c"
    by auto
  show ?thesis
    using loop_plain [OF cs, of "Suc i" rest] c
    by (simp add: p capitalize_def isUpper_toUpper toLower_toUpper)
qed

lemma loop_parts:
  assumes "\<forall>part \<in> set ps. part \<noteq> [] \<and> isLower (hd part) \<and> (\<forall>c \<in> set part. \<not> isUpper c)"
    and "i > 0"
  shows "ToSnakeCase_loop i (concat (map capitalize ps)) = concat (map (\<lambda>q. ''_'' @ q) ps)"
  using assms
proof (induction ps arbitrary: i)
  case Nil
  then show ?case by simp
next
  case (Cons p ps)
  then show ?case
    by (simp add: loop_capitalize)
qed

lemma isLower_toLower: "isUpper c \<Longrightarrow> isLower (toLower c)"
proof -
  assume u: "isUpper c"
  then have "(of_char c :: nat) + 32 < 256"
    unfolding isUpper_def by arith
  then have "(of_char (toLower c) :: nat) = of_char c + 32"
    using u by (simp add: toLower_def of_char_of)
  with u show ?thesis
    unfolding isUpper_def isLower_def by arith
qed

lemma toUpper_plain: "\<not> isLower c \<Longrightarrow> toUpper c = c"
  by (simp add: toUpper_def)

lemma loop_part:
  assumes "\<forall>c \<in> set q. isLower c \<or> isDigit c"
  shows "ToSnakeCase_loop i (capitalize q @ rest) =
         (if q \<noteq> [] \<and> isLower (hd q) \<and> i > 0 then ''_'' else []) @ q @
         ToSnakeCase_loop (i + length q) rest"
proof (cases q)
  case Nil
  then show ?thesis
    by (simp add: capitalize_def)
next
  case (Cons c cs)
  with assms have cs: "\<forall>c \<in> set cs. \<not> isUpper c" and c: "isLower c \<or> isDigit c"
    using lower_digit_not_upper by auto
  show ?thesis
  proof (cases "isLower c")
    case True
    then show ?thesis
      using loop_plain [OF cs, of "Suc i" rest]
      by (simp add: Cons capitalize_def isUpper_toUpper toLower_toUpper)
  next
    case False
    with c have "\<not> isUpper c"
      using lower_digit_not_upper by blast
    with False show ?thesis
      using loop_plain [OF cs, of "Suc i" rest]
      by (simp add: Cons capitalize_def toUpper_plain)
  qed
qed

lemma loop_length_le:
  "\<forall>q \<in> set qs. \<forall>c \<in> set q. isLower c \<or> isDigit c \<Longrightarrow>
   length (ToSnakeCase_loop i (concat (map capitalize qs))) \<le> length (concat qs) + length qs"
proof (induction qs arbitrary: i)
  case Nil
  then show ?case by simp
next
  case (Cons q qs)
  then have q: "\<forall>c \<in> set q. isLower c \<or> isDigit c"
    by simp
  from Cons have "length (ToSnakeCase_loop (i + length q) (concat (map capitalize qs)))
                  \<le> length (concat qs) + length qs"
    by simp
  then show ?case
    by (simp add: loop_part [OF q])
qed

lemma loop_length_less:
  "\<forall>q \<in> set qs. \<forall>c \<in> set q. isLower c \<or> isDigit c \<Longrightarrow>
   \<exists>q \<in> set qs. q = [] \<or> \<not> isLower (hd q) \<Longrightarrow>
   length (ToSnakeCase_loop i (concat (map capitalize qs))) < length (concat qs) + length qs"
proof (induction qs arbitrary: i)
  case Nil
  then show ?case by simp
next
  case (Cons q qs)
  then have q: "\<forall>c \<in> set q. isLower c \<or> isDigit c"
    and qs: "\<forall>q \<in> set qs. \<forall>c \<in> set q. isLower c \<or> isDigit c"
    by simp_all
  show ?case
  proof (cases "q = [] \<or> \<not> isLower (hd q)")
    case True
    with loop_length_le [OF qs, of "i + length q"] show ?thesis
      by (auto simp: loop_part [OF q])
  next
    case False
    with Cons.prems(2) have "\<exists>q \<in> set qs. q = [] \<or> \<not> isLower (hd q)"
      by auto
    from Cons.IH [OF qs this, of "i + length q"] show ?thesis
      by (simp add: loop_part [OF q])
  qed
qed

lemma Join_length:
  "length (Join (p # ps) ''_'') = length p + length (concat ps) + length ps"
  by (induction ps arbitrary: p) simp_all

lemma HasPrefix_underscore:
  "Split s (CHR ''_'') = p # ps \<Longrightarrow> HasPrefix s ''_'' \<longleftrightarrow> p = [] \<and> ps \<noteq> []"
proof (cases s)
  case Nil
  assume "Split s (CHR ''_'') = p # ps"
  with Nil show ?thesis
    by (auto simp: HasPrefix_def)
next
  case (Cons c cs)
  assume sp: "Split s (CHR ''_'') = p # ps"
  show ?thesis
  proof (cases "c = CHR ''_''")
    case True
    with sp Cons Split_nonempty [of cs "CHR ''_''"] show ?thesis
      by (auto simp: HasPrefix_def)
  next
    case False
    with sp Cons show ?thesis
      by (auto simp: HasPrefix_def)
  qed
qed

lemma ToSnakeCase_loop_lower: "ToLower (ToSnakeCase_loop i t) = ToSnakeCase_loop i t"
proof (induction t arbitrary: i)
  case Nil
  then show ?case by (simp add: ToLower_def)
next
  case (Cons r rs)
  have u: "toLower (toLower r) = toLower r"
  proof (cases "isUpper r")
    case True
    then have "isLower (toLower r)"
      by (rule isLower_toLower)
    then have "\<not> isUpper (toLower r)"
      using lower_digit_not_upper by blast
    then show ?thesis
      by (simp add: toLower_def)
  next
    case False
    then show ?thesis
      by (simp add: toLower_def)
  qed
  have l: "toLower (CHR ''_'') = CHR ''_''"
    by (simp add: toLower_def isUpper_def)
  from Cons [of "Suc i"] show ?case
    using u l by (auto simp: ToLower_def toLower_def)
qed

section \<open>Properties of the matcher\<close>

declare allMatches.simps [simp del]

lemma length_submatches: "length (submatches n m) = Suc n"
  by (simp add: submatches_def)

lemma allMatches_length:
  "m \<in> set (allMatches re l s e) \<Longrightarrow> length m = Suc (num_groups re)"
proof (induction re l s e rule: allMatches.induct)
  case (1 re l s prevMatchEnd)
  show ?case
  proof (cases "search re l s")
    case None
    with "1.prems" show ?thesis
      by (subst (asm) allMatches.simps) simp
  next
    case (Some mm)
    have d: "length x = Suc (num_groups re)" if "x \<in> set (deliver re l s prevMatchEnd mm)" for x
      using that by (auto simp: deliver_def length_submatches split: if_splits)
    show ?thesis
    proof (cases "match_end l s mm = length l")
      case True
      show ?thesis
      proof (cases s)
        case Nil
        with "1.prems" Some True d show ?thesis
          by (subst (asm) allMatches.simps) (auto simp del: search.simps)
      next
        case (Cons x xs)
        with "1.prems" Some True
        have "m \<in> set (deliver re l s prevMatchEnd mm) \<or>
              m \<in> set (allMatches re (x # l) xs (int (match_end l s mm)))"
          by (subst (asm) allMatches.simps) (auto simp del: search.simps)
        with d "1.IH"(1) [OF Some True Cons] show ?thesis
          by blast
      qed
    next
      case False
      with "1.prems" Some
      have "m \<in> set (deliver re l s prevMatchEnd mm) \<or>
            m \<in> set (allMatches re (fst (snd mm)) (rest_of (snd mm)) (int (match_end l s mm)))"
        by (subst (asm) allMatches.simps) (auto simp del: search.simps)
      with d "1.IH"(2) [OF Some False] show ?thesis
        by blast
    qed
  qed
qed

lemma num_groups_fieldRe: "num_groups fieldRe = 5"
  by (simp add: fieldRe_def cats_def lit_def Plus_def Opt_def)

lemma num_groups_tableNameRe: "num_groups tableNameRe = 1"
  by (simp add: tableNameRe_def cats_def lit_def Plus_def Opt_def)

lemma fieldRe_match_length:
  "m \<in> set (FindAllStringSubmatch fieldRe s) \<Longrightarrow> length m = 6"
  using allMatches_length [of m fieldRe "[]" s "- 1"]
  by (simp add: FindAllStringSubmatch_def num_groups_fieldRe)

lemma tableNameRe_match_length:
  "FindStringSubmatch tableNameRe s = [] \<or> length (FindStringSubmatch tableNameRe s) = 2"
  by (simp add: FindStringSubmatch_def length_submatches num_groups_tableNameRe
           split: option.splits)

subsection \<open>The matcher on the patterns of the nullability policy\<close>














lemma occurs_iff: "occurs P l s \<longleftrightarrow> (\<exists>u v. s = u @ v \<and> P (rev u @ l) v)"
proof (induction s arbitrary: l)
  case Nil
  then show ?case by simp
next
  case (Cons x xs)
  show ?case
  proof
    assume "occurs P l (x # xs)"
    then consider "P l (x # xs)" | "occurs P (x # l) xs"
      by auto
    then show "\<exists>u v. x # xs = u @ v \<and> P (rev u @ l) v"
    proof cases
      case 1
      then have "x # xs = [] @ (x # xs) \<and> P (rev [] @ l) (x # xs)"
        by simp
      then show ?thesis
        by blast
    next
      case 2
      with Cons.IH obtain u v where "xs = u @ v" "P (rev u @ x # l) v"
        by blast
      then have "x # xs = (x # u) @ v \<and> P (rev (x # u) @ l) v"
        by simp
      then show ?thesis
        by blast
    qed
  next
    assume "\<exists>u v. x # xs = u @ v \<and> P (rev u @ l) v"
    then obtain u v where uv: "x # xs = u @ v" "P (rev u @ l) v"
      by blast
    show "occurs P l (x # xs)"
    proof (cases u)
      case Nil
      with uv have "P l (x # xs)"
        by simp
      then show ?thesis
        by simp
    next
      case (Cons y u')
      with uv have "xs = u' @ v" "P (rev u' @ x # l) v"
        by simp_all
      with Cons.IH show ?thesis
        by auto
    qed
  qed
qed

declare rmatch.simps [simp del]

















lemma rmatch_Star_Atom_first:
  "\<exists>rest. rmatch (Star (Atom c)) (l, s, g) =
     (rev (takeWhile (cls_ok c) s) @ l, dropWhile (cls_ok c) s, g) # rest"
proof (induction s arbitrary: l)
  case Nil
  show ?case
    by (simp add: rmatch.simps(1) rmatch.simps(5) rest_of_def)
next
  case (Cons x xs)
  show ?case
  proof (cases "cls_ok c x")
    case True
    from Cons.IH [of "x # l"] obtain rest where
      "rmatch (Star (Atom c)) (x # l, xs, g) =
         (rev (takeWhile (cls_ok c) xs) @ x # l, dropWhile (cls_ok c) xs, g) # rest"
      by blast
    with True show ?thesis
      by (simp add: rmatch.simps(1) rmatch.simps(5) [of "Atom c" "(l, x # xs, g)"] rest_of_def)
  next
    case False
    then show ?thesis
      by (simp add: rmatch.simps(1) rmatch.simps(5) rest_of_def)
  qed
qed

lemma take_length_dropWhile: "take (length xs - length (dropWhile P xs)) xs = takeWhile P xs"
proof -
  have "length (takeWhile P xs) + length (dropWhile P xs) = length xs"
    by (metis length_append takeWhile_dropWhile_id)
  then have "length xs - length (dropWhile P xs) = length (takeWhile P xs)"
    by simp
  then show ?thesis
    by (metis append_eq_conv_conj takeWhile_dropWhile_id)
qed

lemma search_digitsRe:
  "(case search digitsRe l s of None \<Rightarrow> [] | Some m \<Rightarrow> hd (submatches n m)) = first_digit_run s"
proof (induction s arbitrary: l)
  case Nil
  show ?case
    by (simp add: digitsRe_def Plus_def rmatch.simps(1) rmatch.simps(3) rest_of_def
        first_digit_run_def)
next
  case (Cons x xs)
  show ?case
  proof (cases "isDigit x")
    case True
    obtain rest where r: "rmatch (Star (Atom DigitCls)) (x # l, xs, Map.empty) =
         (rev (takeWhile isDigit xs) @ x # l, dropWhile isDigit xs, Map.empty) # rest"
      using rmatch_Star_Atom_first [of DigitCls "x # l" xs Map.empty]
      by (auto simp: cls_ok.simps [abs_def])
    have "rmatch digitsRe (l, x # xs, Map.empty) =
          rmatch (Star (Atom DigitCls)) (x # l, xs, Map.empty)"
      using True by (simp add: digitsRe_def Plus_def rmatch.simps(1) rmatch.simps(3) rest_of_def)
    with r have "search digitsRe l (x # xs) =
          Some (x # xs, rev (takeWhile isDigit xs) @ x # l, dropWhile isDigit xs, Map.empty)"
      by simp
    moreover have "length (dropWhile isDigit xs) \<le> length xs"
      by (rule length_dropWhile_le)
    ultimately show ?thesis
      using True take_length_dropWhile [of xs isDigit]
      by (simp add: submatches_def rest_of_def first_digit_run_def Suc_diff_le)
  next
    case False
    then have "rmatch digitsRe (l, x # xs, Map.empty) = []"
      by (simp add: digitsRe_def Plus_def rmatch.simps(1) rmatch.simps(3) rest_of_def)
    with False Cons.IH [of "x # l"] show ?thesis
      by (simp add: first_digit_run_def)
  qed
qed

lemma FindString_digitsRe: "FindString digitsRe s = first_digit_run s"
  by (simp add: FindString_def search_digitsRe)

subsection \<open>The texts of the groups hold no line break\<close>

lemma rmatch_consumes:
  "st' \<in> set (rmatch r st) \<Longrightarrow>
   \<exists>w. rest_of st = w @ rest_of st' \<and> (one_line r \<longrightarrow> CHR 0x0A \<notin> set w)"
proof (induction r st arbitrary: st' rule: rmatch.induct)
  case (1 c st)
  show ?case
  proof (cases "rest_of st")
    case Nil
    with "1.prems" show ?thesis
      by (simp add: rmatch.simps(1))
  next
    case (Cons x xs)
    with "1.prems" have "cls_ok c x" "st' = (x # fst st, xs, snd (snd st))"
      by (auto simp: rmatch.simps(1) split: if_splits)
    with Cons have "rest_of st = [x] @ rest_of st' \<and>
                    (one_line (Atom c) \<longrightarrow> CHR 0x0A \<notin> set [x])"
      by (auto simp: rest_of_def)
    then show ?thesis
      by blast
  qed
next
  case (2 st)
  then show ?case
    by (simp add: rmatch.simps(2))
next
  case (3 a b st)
  from "3.prems" obtain mid where mid: "mid \<in> set (rmatch a st)" and st': "st' \<in> set (rmatch b mid)"
    by (auto simp: rmatch.simps(3))
  from "3.IH"(1) [OF mid] obtain w1
    where w1: "rest_of st = w1 @ rest_of mid" "one_line a \<longrightarrow> CHR 0x0A \<notin> set w1"
    by blast
  from "3.IH"(2) [OF mid st'] obtain w2
    where w2: "rest_of mid = w2 @ rest_of st'" "one_line b \<longrightarrow> CHR 0x0A \<notin> set w2"
    by blast
  from w1 w2 have "rest_of st = (w1 @ w2) @ rest_of st' \<and>
                   (one_line (Cat a b) \<longrightarrow> CHR 0x0A \<notin> set (w1 @ w2))"
    by simp
  then show ?case
    by blast
next
  case (4 a b st)
  from "4.prems" have "st' \<in> set (rmatch a st) \<or> st' \<in> set (rmatch b st)"
    by (simp add: rmatch.simps(4))
  then show ?case
    using "4.IH"(1) [of st'] "4.IH"(2) [of st'] by fastforce
next
  case (5 a st)
  from "5.prems" consider (stop) "st' = st"
    | (more) mid where "mid \<in> set (rmatch a st)" "length (rest_of mid) < length (rest_of st)"
        "st' \<in> set (rmatch (Star a) mid)"
    by (subst (asm) rmatch.simps(5)) (auto split: if_splits)
  then show ?case
  proof cases
    case stop
    then show ?thesis
      by simp
  next
    case more
    from "5.IH"(1) [OF more(1)] obtain w1
      where w1: "rest_of st = w1 @ rest_of mid" "one_line a \<longrightarrow> CHR 0x0A \<notin> set w1"
      by blast
    from "5.IH"(2) [OF more(1) more(2) more(3)] obtain w2
      where w2: "rest_of mid = w2 @ rest_of st'" "one_line (Star a) \<longrightarrow> CHR 0x0A \<notin> set w2"
      by blast
    from w1 w2 have "rest_of st = (w1 @ w2) @ rest_of st' \<and>
                     (one_line (Star a) \<longrightarrow> CHR 0x0A \<notin> set (w1 @ w2))"
      by simp
    then show ?thesis
      by blast
  qed
next
  case (6 a st)
  from "6.prems" consider (stop) "st' = st"
    | (more) mid where "mid \<in> set (rmatch a st)" "length (rest_of mid) < length (rest_of st)"
        "st' \<in> set (rmatch (StarLazy a) mid)"
    by (subst (asm) rmatch.simps(6)) (auto split: if_splits)
  then show ?case
  proof cases
    case stop
    then show ?thesis
      by simp
  next
    case more
    from "6.IH"(1) [OF more(1)] obtain w1
      where w1: "rest_of st = w1 @ rest_of mid" "one_line a \<longrightarrow> CHR 0x0A \<notin> set w1"
      by blast
    from "6.IH"(2) [OF more(1) more(2) more(3)] obtain w2
      where w2: "rest_of mid = w2 @ rest_of st'"
        "one_line (StarLazy a) \<longrightarrow> CHR 0x0A \<notin> set w2"
      by blast
    from w1 w2 have "rest_of st = (w1 @ w2) @ rest_of st' \<and>
                     (one_line (StarLazy a) \<longrightarrow> CHR 0x0A \<notin> set (w1 @ w2))"
      by simp
    then show ?thesis
      by blast
  qed
next
  case (7 n a st)
  from "7.prems" obtain mid where mid: "mid \<in> set (rmatch a st)"
    and st': "rest_of st' = rest_of mid"
    by (auto simp: rmatch.simps(7) rest_of_def)
  from "7.IH" [OF mid] st' show ?case
    by simp
next
  case (8 st)
  then show ?case
    by (auto simp: rmatch.simps(8) split: if_splits)
qed

lemma rmatch_captures:
  "st' \<in> set (rmatch r st) \<Longrightarrow> groups_one_line r \<Longrightarrow>
   captures_one_line (snd (snd st)) \<Longrightarrow> captures_one_line (snd (snd st'))"
proof (induction r st arbitrary: st' rule: rmatch.induct)
  case (1 c st)
  then show ?case
    by (auto simp: rmatch.simps(1) split: list.splits if_splits)
next
  case (2 st)
  then show ?case
    by (simp add: rmatch.simps(2))
next
  case (3 a b st)
  from "3.prems"(1) obtain mid where mid: "mid \<in> set (rmatch a st)"
    and st': "st' \<in> set (rmatch b mid)"
    by (auto simp: rmatch.simps(3))
  from "3.IH"(1) [OF mid] "3.prems" have "captures_one_line (snd (snd mid))"
    by simp
  with "3.IH"(2) [OF mid st'] "3.prems" show ?case
    by simp
next
  case (4 a b st)
  from "4.prems"(1) have "st' \<in> set (rmatch a st) \<or> st' \<in> set (rmatch b st)"
    by (simp add: rmatch.simps(4))
  moreover from "4.prems"(2) have "groups_one_line a" "groups_one_line b"
    by simp_all
  ultimately show ?case
    using "4.IH"(1) [of st'] "4.IH"(2) [of st'] "4.prems"(3) by blast
next
  case (5 a st)
  from "5.prems"(1) consider (stop) "st' = st"
    | (more) mid where "mid \<in> set (rmatch a st)" "length (rest_of mid) < length (rest_of st)"
        "st' \<in> set (rmatch (Star a) mid)"
    by (subst (asm) rmatch.simps(5)) (auto split: if_splits)
  then show ?case
  proof cases
    case stop
    with "5.prems" show ?thesis
      by simp
  next
    case more
    from "5.IH"(1) [OF more(1)] "5.prems" have "captures_one_line (snd (snd mid))"
      by simp
    with "5.IH"(2) [OF more(1) more(2) more(3)] "5.prems" show ?thesis
      by simp
  qed
next
  case (6 a st)
  from "6.prems"(1) consider (stop) "st' = st"
    | (more) mid where "mid \<in> set (rmatch a st)" "length (rest_of mid) < length (rest_of st)"
        "st' \<in> set (rmatch (StarLazy a) mid)"
    by (subst (asm) rmatch.simps(6)) (auto split: if_splits)
  then show ?case
  proof cases
    case stop
    with "6.prems" show ?thesis
      by simp
  next
    case more
    from "6.IH"(1) [OF more(1)] "6.prems" have "captures_one_line (snd (snd mid))"
      by simp
    with "6.IH"(2) [OF more(1) more(2) more(3)] "6.prems" show ?thesis
      by simp
  qed
next
  case (7 n a st)
  from "7.prems"(1) obtain mid where mid: "mid \<in> set (rmatch a st)"
    and st': "snd (snd st') =
              (snd (snd mid))(n \<mapsto> take (length (rest_of st) - length (rest_of mid)) (rest_of st))"
    by (auto simp: rmatch.simps(7))
  from "7.IH" [OF mid] "7.prems" have c: "captures_one_line (snd (snd mid))"
    by simp
  from rmatch_consumes [OF mid] "7.prems"(2) obtain w
    where w: "rest_of st = w @ rest_of mid" "CHR 0x0A \<notin> set w"
    by auto
  then have "take (length (rest_of st) - length (rest_of mid)) (rest_of st) = w"
    by simp
  with st' c w(2) show ?case
    by (auto simp: captures_one_line_def)
next
  case (8 st)
  then show ?case
    by (auto simp: rmatch.simps(8) split: if_splits)
qed

lemma search_captures:
  "search r l s = Some m \<Longrightarrow> groups_one_line r \<Longrightarrow> captures_one_line (snd (snd (snd m)))"
proof (induction s arbitrary: l)
  case Nil
  then obtain st others where "rmatch r (l, [], Map.empty) = st # others" "m = ([], st)"
    by (auto split: list.splits)
  then have "st \<in> set (rmatch r (l, [], Map.empty))" "snd m = st"
    by simp_all
  with rmatch_captures [of st r "(l, [], Map.empty)"] Nil.prems(2) show ?case
    by (simp add: captures_one_line_def)
next
  case (Cons x xs)
  show ?case
  proof (cases "rmatch r (l, x # xs, Map.empty)")
    case Nil
    with Cons.prems(1) have "search r (x # l) xs = Some m"
      by simp
    from Cons.IH [OF this Cons.prems(2)] show ?thesis .
  next
    case (Cons st others)
    with Cons.prems(1) have "st \<in> set (rmatch r (l, x # xs, Map.empty))" "snd m = st"
      by auto
    with rmatch_captures [of st r "(l, x # xs, Map.empty)"] Cons.prems(2) show ?thesis
      by (simp add: captures_one_line_def)
  qed
qed

lemma submatches_one_line:
  "captures_one_line (snd (snd (snd m))) \<Longrightarrow>
   \<forall>x \<in> set (tl (submatches n m)). CHR 0x0A \<notin> set x"
  by (auto simp: submatches_def captures_one_line_def split: option.splits)

lemma FindStringSubmatch_one_line:
  "groups_one_line re \<Longrightarrow> \<forall>x \<in> set (tl (FindStringSubmatch re s)). CHR 0x0A \<notin> set x"
  using search_captures [of re "[]" s] submatches_one_line
  by (auto simp: FindStringSubmatch_def simp del: search.simps split: option.splits)

lemma allMatches_one_line:
  "m \<in> set (allMatches re l s e) \<Longrightarrow> groups_one_line re \<Longrightarrow>
   \<forall>x \<in> set (tl m). CHR 0x0A \<notin> set x"
proof (induction re l s e rule: allMatches.induct)
  case (1 re l s prevMatchEnd)
  show ?case
  proof (cases "search re l s")
    case None
    with "1.prems" show ?thesis
      by (subst (asm) allMatches.simps) simp
  next
    case (Some mm)
    have d: "\<forall>y \<in> set (tl x). CHR 0x0A \<notin> set y"
      if "x \<in> set (deliver re l s prevMatchEnd mm)" for x
      using that submatches_one_line [OF search_captures [OF Some "1.prems"(2)]]
      by (auto simp: deliver_def split: if_splits)
    show ?thesis
    proof (cases "match_end l s mm = length l")
      case True
      show ?thesis
      proof (cases s)
        case Nil
        with "1.prems" Some True d show ?thesis
          by (subst (asm) allMatches.simps) (auto simp del: search.simps)
      next
        case (Cons x xs)
        with "1.prems" Some True
        have "m \<in> set (deliver re l s prevMatchEnd mm) \<or>
              m \<in> set (allMatches re (x # l) xs (int (match_end l s mm)))"
          by (subst (asm) allMatches.simps) (auto simp del: search.simps)
        with d "1.IH"(1) [OF Some True Cons _ "1.prems"(2)] show ?thesis
          by blast
      qed
    next
      case False
      with "1.prems" Some
      have "m \<in> set (deliver re l s prevMatchEnd mm) \<or>
            m \<in> set (allMatches re (fst (snd mm)) (rest_of (snd mm)) (int (match_end l s mm)))"
        by (subst (asm) allMatches.simps) (auto simp del: search.simps)
      with d "1.IH"(2) [OF Some False _ "1.prems"(2)] show ?thesis
        by blast
    qed
  qed
qed

lemma groups_one_line_fieldRe: "groups_one_line fieldRe"
  by (simp add: fieldRe_def cats_def lit_def Plus_def Opt_def isWordChar_def isDigit_def
        isUpper_def isLower_def isSpace_def)

lemma groups_one_line_tableNameRe: "groups_one_line tableNameRe"
  by (simp add: tableNameRe_def cats_def lit_def Plus_def Opt_def isWordChar_def isDigit_def
        isUpper_def isLower_def isSpace_def)

lemma fieldRe_one_line:
  assumes "m \<in> set (FindAllStringSubmatch fieldRe s)"
  shows "CHR 0x0A \<notin> set (m ! 1) \<and> CHR 0x0A \<notin> set (m ! 2) \<and> CHR 0x0A \<notin> set (m ! 5)"
proof -
  from assms have len: "length m = 6"
    by (rule fieldRe_match_length)
  from assms have "\<forall>x \<in> set (tl m). CHR 0x0A \<notin> set x"
    using allMatches_one_line [OF _ groups_one_line_fieldRe]
    by (simp add: FindAllStringSubmatch_def)
  moreover from len have "m ! 1 \<in> set (tl m)" "m ! 2 \<in> set (tl m)" "m ! 5 \<in> set (tl m)"
    by (cases m; simp)+
  ultimately show ?thesis
    by blast
qed

section \<open>Properties of the extractor\<close>


text \<open>
  The loop adds one descriptor for each match, in the order of the matches, and a
  descriptor depends on the parser only through its two type tables.
\<close>

lemma field_of_match_Fields [simp]:
  "field_of_match (p\<lparr>Fields := fs\<rparr>) = field_of_match p"
  by (rule ext) (simp add: field_of_match_def goType_def)

lemma field_of_match_names [simp]:
  "field_of_match (p\<lparr>TableName := n\<rparr>) = field_of_match p"
  "field_of_match (p\<lparr>StructName := n\<rparr>) = field_of_match p"
  by (rule ext, simp add: field_of_match_def goType_def)+

lemma Parse_fields_ok:
  "\<forall>m \<in> set ms. length m = 6 \<Longrightarrow>
   Parse_fields ms p = (None, p\<lparr>Fields := Fields p @ map (field_of_match p) ms\<rparr>)"
proof (induction ms arbitrary: p)
  case Nil
  then show ?case by simp
next
  case (Cons m ms)
  then show ?case by simp
qed

lemma Parse_fields_matches:
  "Parse_fields (FindAllStringSubmatch fieldRe s) p =
   (None, p\<lparr>Fields := Fields p @ map (field_of_match p) (FindAllStringSubmatch fieldRe s)\<rparr>)"
  by (rule Parse_fields_ok) (simp add: fieldRe_match_length)

lemma Parse_returns_nil: "fst (Parse sqlContent p) = None"
  using tableNameRe_match_length [of sqlContent]
  by (auto simp: Parse_def Let_def Parse_fields_matches)

lemma Parse_Fields:
  "Fields (snd (Parse sqlContent p)) =
   Fields p @ map (field_of_match p) (FindAllStringSubmatch fieldRe sqlContent)"
  using tableNameRe_match_length [of sqlContent]
  by (auto simp: Parse_def Let_def Parse_fields_matches)

lemma Parse_nothing_matches:
  "FindStringSubmatch tableNameRe sqlContent = [] \<Longrightarrow>
   FindAllStringSubmatch fieldRe sqlContent = [] \<Longrightarrow> Parse sqlContent p = (None, p)"
  by (simp add: Parse_def)

lemma Parse_SecondStructName:
  "SecondStructName (snd (Parse sqlContent p)) = SecondStructName p"
  using tableNameRe_match_length [of sqlContent]
  by (auto simp: Parse_def Let_def Parse_fields_matches)

lemma Parse_StructName:
  "StructName p \<noteq> [] \<Longrightarrow> StructName (snd (Parse sqlContent p)) = StructName p"
  using tableNameRe_match_length [of sqlContent]
  by (auto simp: Parse_def Let_def Parse_fields_matches)

subsection \<open>What the extractor derives holds no line break\<close>

lemma single_line_Nil [simp]: "single_line []"
  by (simp add: single_line_def)

lemma single_line_Cons [simp]: "single_line (c # cs) = (c \<noteq> CHR 0x0A \<and> single_line cs)"
  by (auto simp: single_line_def)

lemma single_line_append [simp]: "single_line (a @ b) = (single_line a \<and> single_line b)"
  by (auto simp: single_line_def)

lemma single_line_subset: "set a \<subseteq> set b \<Longrightarrow> single_line b \<Longrightarrow> single_line a"
  by (auto simp: single_line_def)

lemma single_line_concat: "single_line (concat xs) = (\<forall>x \<in> set xs. single_line x)"
  by (induction xs) auto

lemma single_line_replicate [simp]: "single_line (replicate n (CHR '' ''))"
  by (induction n) auto

lemma toUpper_newline [simp]: "(toUpper c = CHR 0x0A) = (c = CHR 0x0A)"
proof (cases "isLower c")
  case True
  then have "isUpper (toUpper c)"
    by (rule isUpper_toUpper)
  then have "toUpper c \<noteq> CHR 0x0A"
    by (auto simp: isUpper_def)
  moreover from True have "c \<noteq> CHR 0x0A"
    by (auto simp: isLower_def)
  ultimately show ?thesis
    by simp
next
  case False
  then show ?thesis
    by (simp add: toUpper_def)
qed

lemma toLower_newline [simp]: "(toLower c = CHR 0x0A) = (c = CHR 0x0A)"
proof (cases "isUpper c")
  case True
  then have "isLower (toLower c)"
    by (rule isLower_toLower)
  then have "toLower c \<noteq> CHR 0x0A"
    by (auto simp: isLower_def)
  moreover from True have "c \<noteq> CHR 0x0A"
    by (auto simp: isUpper_def)
  ultimately show ?thesis
    by simp
next
  case False
  then show ?thesis
    by (simp add: toLower_def)
qed

lemma single_line_ToLower [simp]: "single_line (ToLower s) = single_line s"
  by (induction s) (simp_all add: ToLower_def)

lemma single_line_ToUpper [simp]: "single_line (ToUpper s) = single_line s"
  by (induction s) (simp_all add: ToUpper_def)

lemma single_line_Title_from [simp]: "single_line (Title_from prev s) = single_line s"
  by (induction s arbitrary: prev) simp_all

lemma single_line_Title [simp]: "single_line (Title s) = single_line s"
  by (simp add: Title_def)

lemma single_line_pad [simp]: "single_line (pad n s) = single_line s"
  by (simp add: pad_def)

lemma single_line_take: "single_line s \<Longrightarrow> single_line (take n s)"
  by (rule single_line_subset [OF set_take_subset])

lemma single_line_drop: "single_line s \<Longrightarrow> single_line (drop n s)"
  by (rule single_line_subset [OF set_drop_subset])

lemma single_line_ToPascalCase:
  assumes "single_line s"
  shows "single_line (ToPascalCase s)"
proof -
  have "single_line part" if "part \<in> set (Split s (CHR ''_''))" for part
    using Split_chars [OF that] assms by (auto simp: single_line_def)
  then have j: "single_line (pascal_joined s)"
    by (simp add: pascal_joined_def Join_empty_sep single_line_concat)
  show ?thesis
  proof (cases "drop 1 (pascal_joined s)")
    case Nil
    with j show ?thesis
      by (auto simp: ToPascalCase_def Let_def)
  next
    case (Cons c cs)
    from single_line_drop [OF j, of 1] Cons have "c \<noteq> CHR 0x0A" "single_line cs"
      by simp_all
    with j Cons show ?thesis
      by (simp add: ToPascalCase_def Let_def ToUpper_def)
  qed
qed

lemma single_line_first_digit_run: "single_line (first_digit_run s)"
proof -
  have "\<forall>c \<in> set (first_digit_run s). isDigit c"
    by (auto simp: first_digit_run_def dest: set_takeWhileD)
  then show ?thesis
    by (auto simp: single_line_def isDigit_def)
qed

lemma single_line_typeMappings:
  "single_line (lookup typeMappings k)" "single_line (lookup nullableTypeMappings k)"
proof -
  have "\<forall>v \<in> snd ` set typeTable. single_line v"
    by (simp add: typeTable_def)
  then show "single_line (lookup typeMappings k)"
    by (auto simp: lookup_def typeMappings_def split: option.splits dest!: map_of_SomeD)
  have "\<forall>v \<in> snd ` set nullableTypeTable. single_line v"
    by (simp add: nullableTypeTable_def)
  then show "single_line (lookup nullableTypeMappings k)"
    by (auto simp: lookup_def nullableTypeMappings_def split: option.splits dest!: map_of_SomeD)
qed

lemma field_of_match_single_line:
  assumes "m \<in> set (FindAllStringSubmatch fieldRe s)"
    and "TypeMappings p = typeMappings" "NullableTypeMappings p = nullableTypeMappings"
  shows "single_line_field (field_of_match p m)"
proof -
  from fieldRe_one_line [OF assms(1)]
  have m: "single_line (m ! 1)" "single_line (m ! 5)"
    by (simp_all add: single_line_def)
  have "single_line (validate_of m)"
    by (simp add: validate_of_def FindString_digitsRe single_line_first_digit_run)
  moreover have "single_line (goType p m)"
    by (simp add: goType_def assms(2,3) single_line_typeMappings)
  ultimately show ?thesis
    using m by (simp add: single_line_field_def field_of_match_def single_line_ToPascalCase)
qed

lemma Parse_StructName_cases:
  "StructName (snd (Parse sqlContent p)) = StructName p \<or>
   StructName (snd (Parse sqlContent p)) =
     ToPascalCase (FindStringSubmatch tableNameRe sqlContent ! 1) \<and>
   length (FindStringSubmatch tableNameRe sqlContent) = 2"
  using tableNameRe_match_length [of sqlContent]
  by (auto simp: Parse_def Let_def Parse_fields_matches)

lemma Parse_single_line:
  assumes "TypeMappings p = typeMappings" "NullableTypeMappings p = nullableTypeMappings"
    and "single_line (StructName p)" and "\<forall>f \<in> set (Fields p). single_line_field f"
  shows "single_line (StructName (snd (Parse sqlContent p))) \<and>
         (\<forall>f \<in> set (Fields (snd (Parse sqlContent p))). single_line_field f)"
proof -
  have "single_line (ToPascalCase (FindStringSubmatch tableNameRe sqlContent ! 1))"
    if "length (FindStringSubmatch tableNameRe sqlContent) = 2"
  proof -
    from that have "FindStringSubmatch tableNameRe sqlContent ! 1
                    \<in> set (tl (FindStringSubmatch tableNameRe sqlContent))"
      by (cases "FindStringSubmatch tableNameRe sqlContent") auto
    with FindStringSubmatch_one_line [OF groups_one_line_tableNameRe, of sqlContent]
    have "single_line (FindStringSubmatch tableNameRe sqlContent ! 1)"
      by (simp add: single_line_def)
    then show ?thesis
      by (rule single_line_ToPascalCase)
  qed
  with Parse_StructName_cases [of sqlContent p] assms(3)
  have "single_line (StructName (snd (Parse sqlContent p)))"
    by auto
  moreover have "\<forall>f \<in> set (Fields (snd (Parse sqlContent p))). single_line_field f"
    using assms(4) field_of_match_single_line [OF _ assms(1,2)]
    by (auto simp: Parse_Fields)
  ultimately show ?thesis
    by simp
qed

section \<open>Properties of the emitter\<close>

lemma is_nullable_wrapper_iff:
  "is_nullable_wrapper t \<longleftrightarrow>
     t = ''sql.NullInt32'' \<or> t = ''sql.NullInt64'' \<or> t = ''sql.NullString'' \<or>
     t = ''datetime.NullDateTime'' \<or> t = ''sql.NullFloat64'' \<or> t = ''sql.NullFloat32''"
  by (auto simp: is_nullable_wrapper_def nullableTypeTable_def)

lemma write_lines_None_iff:
  "write_lines f fs = None \<longleftrightarrow> (\<exists>x \<in> set fs. f x = None)"
  by (induction fs) (auto split: option.splits)

lemma privateField_None_iff: "privateField n = None \<longleftrightarrow> n = []"
  by (simp add: privateField_def)

lemma line_None_iff:
  "entity_line f = None \<longleftrightarrow> FieldName f = []"
  "to_entity_line f = None \<longleftrightarrow> FieldName f = []"
  "to_po_line f = None \<longleftrightarrow> FieldName f = []"
  by (simp_all add: entity_line_def to_entity_line_def to_po_line_def privateField_def
        split: option.splits)

lemma entity_part_None_iff:
  "entity_part p = None \<longleftrightarrow> (\<exists>f \<in> set (Fields p). FieldName f = [])"
proof (cases "\<exists>f \<in> set (Fields p). FieldName f = []")
  case True
  then have "write_lines entity_line (Fields p) = None"
    by (simp add: write_lines_None_iff line_None_iff)
  with True show ?thesis
    by (simp add: entity_part_def)
next
  case False
  then have "write_lines entity_line (Fields p) \<noteq> None"
    "write_lines to_entity_line (Fields p) \<noteq> None"
    "write_lines to_po_line (Fields p) \<noteq> None"
    by (simp_all add: write_lines_None_iff line_None_iff)
  with False show ?thesis
    by (auto simp: entity_part_def)
qed

lemma render_None_iff:
  "render p = None \<longleftrightarrow> SecondStructName p \<noteq> [] \<and> (\<exists>f \<in> set (Fields p). FieldName f = [])"
  using entity_part_None_iff [of p]
  by (auto simp: render_def  split: option.splits)

lemma needTimeFunc_iff:
  "needTimeFunc fs \<longleftrightarrow> (\<exists>f \<in> set fs. FieldType f = ''datetime.NullDateTime'')"
  by (induction fs) auto

lemma GenerateStruct_cases:
  "GenerateStruct joinPath outputDir (p, fs) =
     (case render p of
        None \<Rightarrow> (Inl Panic, p, fs)
      | Some text \<Rightarrow>
          (case write_fault fs (GetOutputPath joinPath outputDir p) of
             Some cause \<Rightarrow> (Inl (Error (WriteFailed cause)), p, fs)
           | None \<Rightarrow>
               (Inr (GetOutputPath joinPath outputDir p), p,
                fs\<lparr>read_result :=
                     (read_result fs)(GetOutputPath joinPath outputDir p := Inr text)\<rparr>)))"
  by (simp add: GenerateStruct_def GetOutputPath_def WriteFile_def Let_def
           split: option.splits)

text \<open>What the loops write, and where a line of the PO struct is in the output.\<close>

lemma write_lines_Some:
  "write_lines g fs = Some ls \<Longrightarrow>
   ls = concat (map (\<lambda>f. the (g f)) fs) \<and> (\<forall>f \<in> set fs. g f \<noteq> None)"
  by (induction fs arbitrary: ls) (auto split: option.splits)

lemma entity_access_accessor:
  "FieldType f \<noteq> ''sql.NullFloat32'' \<Longrightarrow>
   entity_access f = FieldName f @ accessor (FieldType f)"
  by (simp add: entity_access_def accessor_def)

lemma po_part_holds_line:
  assumes "f \<in> set (Fields p)"
  shows "\<exists>pre post. po_part p = pre @ po_line f @ post"
proof -
  from assms obtain xs ys where "Fields p = xs @ f # ys"
    by (auto dest: split_list)
  then have "po_part p =
      (''package po\<newline>\<newline>'' @
       ''import (\<newline>'' @ [CHR 0x09] @
       [CHR 0x22] @ ''git.woa.com/prd_base_pay_go/paycomm/datetime'' @ [CHR 0x22] @
       ''\<newline>'' @ [CHR 0x09] @
       [CHR 0x22] @ ''github.com/go-playground/validator/v10'' @ [CHR 0x22] @
       ''\<newline>)\<newline>\<newline>'' @
       ''// '' @ StructName p @ '' Po'' @
       [CHR 0xE7, CHR 0xBB, CHR 0x93, CHR 0xE6, CHR 0x9E, CHR 0x84, CHR 0xE4, CHR 0xBD, CHR 0x93] @
       ''\<newline>'' @
       ''type '' @ StructName p @ '' struct {\<newline>'' @
       concat (map po_line xs)) @ po_line f @
      (concat (map po_line ys) @ ''}\<newline>\<newline>\<newline>'')"
    by (simp add: po_part_def)
  then show ?thesis
    by blast
qed

lemma render_holds_line:
  assumes "render p = Some out" and "f \<in> set (Fields p)"
  shows "\<exists>pre post. out = pre @ po_line f @ post"
proof -
  from po_part_holds_line [OF assms(2)] obtain pre post
    where pp: "po_part p = pre @ po_line f @ post"
    by blast
  from assms(1) obtain e where "out = po_part p @ e"
    by (auto simp: render_def split: if_splits option.splits)
  with pp have "out = pre @ po_line f @ (post @ e)"
    by simp
  then show ?thesis
    by blast
qed

text \<open>
  A matched column whose type keyword has no entry in the table that its nullability
  selects: \<^verbatim>\<open>Parse\<close> returns \<^verbatim>\<open>nil\<close>, the descriptor is in the field list with the
  empty type, its line of the PO struct has 20 blanks for the type, and every output
  that is rendered contains that line. The rendering fails exactly on an empty field
  name with a second struct name given.
\<close>

lemma unmapped_type_embedded:
  assumes "match \<in> set (FindAllStringSubmatch fieldRe sqlContent)"
    and "(if isNullable (match ! 4) then NullableTypeMappings p else TypeMappings p)
           (sqlType_of match) = None"
  shows "fst (Parse sqlContent p) = None \<and>
         field_of_match p match \<in> set (Fields (snd (Parse sqlContent p))) \<and>
         FieldType (field_of_match p match) = [] \<and>
         po_line (field_of_match p match) =
           [CHR 0x09] @ pad 30 (ToPascalCase (match ! 1)) @ '' '' @ replicate 20 (CHR '' '') @
           '' '' @ [CHR 0x60] @ ''db:'' @ [CHR 0x22] @ match ! 1 @ [CHR 0x22] @
           (if validate_of match \<noteq> [] then '' '' @ validate_of match else []) @
           [CHR 0x60] @ '' // '' @ match ! 5 @ ''\<newline>'' \<and>
         (\<forall>out. render (snd (Parse sqlContent p)) = Some out \<longrightarrow>
            (\<exists>pre post. out = pre @ po_line (field_of_match p match) @ post)) \<and>
         (render (snd (Parse sqlContent p)) = None \<longleftrightarrow>
            SecondStructName p \<noteq> [] \<and>
            (\<exists>f \<in> set (Fields (snd (Parse sqlContent p))). FieldName f = []))"
proof -
  from assms(2) have t: "FieldType (field_of_match p match) = []"
    by (simp add: field_of_match_def goType_def lookup_def split: if_splits)
  from assms(1) have m: "field_of_match p match \<in> set (Fields (snd (Parse sqlContent p)))"
    by (simp add: Parse_Fields)
  from t have "po_line (field_of_match p match) =
           [CHR 0x09] @ pad 30 (ToPascalCase (match ! 1)) @ '' '' @ replicate 20 (CHR '' '') @
           '' '' @ [CHR 0x60] @ ''db:'' @ [CHR 0x22] @ match ! 1 @ [CHR 0x22] @
           (if validate_of match \<noteq> [] then '' '' @ validate_of match else []) @
           [CHR 0x60] @ '' // '' @ match ! 5 @ ''\<newline>''"
    by (simp add: po_line_def Let_def pad_def field_of_match_def)
  moreover have "\<forall>out. render (snd (Parse sqlContent p)) = Some out \<longrightarrow>
            (\<exists>pre post. out = pre @ po_line (field_of_match p match) @ post)"
    using render_holds_line [OF _ m] by blast
  ultimately show ?thesis
    using t m by (simp add: Parse_returns_nil render_None_iff Parse_SecondStructName)
qed

text \<open>The column \<^verbatim>\<open>s\<close> of type \<^verbatim>\<open>ENUM\<close>, parsed and rendered.\<close>

lemma unmapped_type_embedded_example:
  "Fields (snd (Parse ([CHR 0x60] @ ''s'' @ [CHR 0x60] @ '' ENUM NOT NULL COMMENT '' @
                       [CHR 0x27] @ ''x'' @ [CHR 0x27]) (NewSQLParser [''P'', ''E''])))
     = [\<lparr>FieldName = ''S'', FieldType = [], Comment = ''x'', Validate = [],
         OriginalField = ''s''\<rparr>] \<and>
   (\<exists>out pre post.
      render (snd (Parse ([CHR 0x60] @ ''s'' @ [CHR 0x60] @ '' ENUM NOT NULL COMMENT '' @
                          [CHR 0x27] @ ''x'' @ [CHR 0x27]) (NewSQLParser [''P'', ''E''])))
        = Some out \<and>
      out = pre @ [CHR 0x09] @ ''S'' @ replicate 29 (CHR '' '') @ '' '' @
            replicate 20 (CHR '' '') @ '' '' @ [CHR 0x60] @ ''db:'' @ [CHR 0x22] @ ''s'' @
            [CHR 0x22, CHR 0x60] @ '' // x\<newline>'' @ post)"
proof -
  define sql where
    "sql = [CHR 0x60] @ ''s'' @ [CHR 0x60] @ '' ENUM NOT NULL COMMENT '' @
           [CHR 0x27] @ ''x'' @ [CHR 0x27]"
  define m where "m = [sql, ''s'', ''ENUM'', [], ''NOT NULL'', ''x'']"
  define p where "p = NewSQLParser [''P'', ''E'']"
  define f where "f = \<lparr>FieldName = ''S'', FieldType = [], Comment = ''x'', Validate = [],
                        OriginalField = ''s''\<rparr>"
  have all: "FindAllStringSubmatch fieldRe sql = [m]"
    unfolding sql_def m_def by code_simp
  have fs: "Fields (snd (Parse sql p)) = [f]"
    unfolding sql_def p_def f_def by code_simp
  have nn: "\<not> isNullable (m ! 4)"
    unfolding m_def by code_simp
  have ty: "sqlType_of m = ''ENUM''"
    unfolding m_def by code_simp
  have un: "TypeMappings p ''ENUM'' = None"
    unfolding p_def by (simp add: NewSQLParser_def typeMappings_def typeTable_def)
  have fm: "field_of_match p m = f"
    using fs all by (simp add: Parse_Fields p_def NewSQLParser_def)
  have hyp1: "m \<in> set (FindAllStringSubmatch fieldRe sql)"
    by (simp add: all)
  have hyp2: "(if isNullable (m ! 4) then NullableTypeMappings p else TypeMappings p)
                (sqlType_of m) = None"
    using nn un ty by simp
  have line: "po_line f = [CHR 0x09] @ ''S'' @ replicate 29 (CHR '' '') @ '' '' @
            replicate 20 (CHR '' '') @ '' '' @ [CHR 0x60] @ ''db:'' @ [CHR 0x22] @ ''s'' @
            [CHR 0x22, CHR 0x60] @ '' // x\<newline>''"
    by (simp add: f_def po_line_def pad_def)
  have "render (snd (Parse sql p)) \<noteq> None"
    by (simp add: render_None_iff fs f_def)
  then obtain out where out: "render (snd (Parse sql p)) = Some out"
    by blast
  with unmapped_type_embedded [OF hyp1 hyp2] fm obtain pre post
    where "out = pre @ po_line f @ post"
    by auto
  with out fs line show ?thesis
    unfolding sql_def p_def f_def by auto
qed

subsection \<open>Where the helper is in the output\<close>

lemma marker_step_at [simp]:
  "marker_step 0 c = (if c = CHR 0x0A then Suc 0 else 0)"
  "marker_step (Suc 0) c = (if c = CHR 0x0A then Suc 0 else if c = CHR ''f'' then 2 else 0)"
  "marker_step 2 c = (if c = CHR 0x0A then Suc 0 else if c = CHR ''u'' then 3 else 0)"
  "marker_step 3 c = (if c = CHR 0x0A then Suc 0 else if c = CHR ''n'' then 4 else 0)"
  "marker_step 4 c = (if c = CHR 0x0A then Suc 0 else if c = CHR ''c'' then 5 else 0)"
  "marker_step 5 c = (if c = CHR 0x0A then Suc 0 else if c = CHR '' '' then 6 else 0)"
  "marker_step 6 c = (if c = CHR 0x0A then Suc 0 else if c = CHR ''T'' then 7 else 0)"
  "marker_step 7 c = (if c = CHR 0x0A then Suc 0 else if c = CHR ''i'' then 8 else 0)"
  "marker_step 8 c = 8"
  by simp_all

lemma marker_step_newline: "marker_step k (CHR 0x0A) = (if k = 8 then 8 else Suc 0)"
  by simp

declare marker_step.simps [simp del]

lemma marker_scan_append [simp]: "marker_scan k (a @ b) = marker_scan (marker_scan k a) b"
  by (induction a arbitrary: k) simp_all

lemma marker_scan_found [simp]: "marker_scan 8 t = 8"
  by (induction t) simp_all

lemma marker_scan_marker: "marker_scan k helper_marker = 8"
  by (cases "k = 8") (simp_all add: helper_marker_def marker_step_newline)

lemma marker_scan_contains: "marker_scan k (a @ helper_marker @ b) = 8"
  by (simp add: marker_scan_marker)

lemma marker_scan_single_line: "single_line v \<Longrightarrow> marker_scan 0 v = 0"
  by (induction v) simp_all

lemma timeFuncText_marker: "\<exists>a b. timeFuncText = a @ helper_marker @ b"
proof -
  have "timeFuncText =
     (''// TimeToNullDateTime Time '' @
      [CHR 0xE8, CHR 0xBD, CHR 0xAC, CHR 0xE6, CHR 0x88, CHR 0x90] @
      '' datetime.NullDateTime'') @ helper_marker @
     (''meToNullDateTime(t time.Time) datetime.NullDateTime {\<newline>'' @
      [CHR 0x09] @
      ''if !t.IsZero() {\<newline>'' @
      [CHR 0x09, CHR 0x09] @
      ''return datetime.NullDateTime{Time: datetime.NewDateTime(t), Valid: true}\<newline>'' @
      [CHR 0x09] @
      ''}\<newline>'' @
      [CHR 0x09] @
      ''return datetime.NullDateTime{Valid: false}\<newline>}'')"
    by (simp add: timeFuncText_def helper_marker_def)
  then show ?thesis
    by blast
qed

lemma HasPrefix_iff: "HasPrefix s pre \<longleftrightarrow> (\<exists>b. s = pre @ b)"
proof
  assume "HasPrefix s pre"
  then have "s = pre @ drop (length pre) s"
    by (metis HasPrefix_def append_take_drop_id)
  then show "\<exists>b. s = pre @ b" ..
next
  assume "\<exists>b. s = pre @ b"
  then show "HasPrefix s pre"
    by (auto simp: HasPrefix_def)
qed

lemma Contains_iff: "Contains t w \<longleftrightarrow> (\<exists>a b. t = a @ w @ b)"
proof (induction t)
  case Nil
  then show ?case
    by auto
next
  case (Cons c cs)
  show ?case
  proof
    assume "Contains (c # cs) w"
    then consider "HasPrefix (c # cs) w" | "Contains cs w"
      by auto
    then show "\<exists>a b. c # cs = a @ w @ b"
    proof cases
      case 1
      then obtain b where "c # cs = [] @ w @ b"
        by (auto simp: HasPrefix_iff)
      then show ?thesis
        by blast
    next
      case 2
      with Cons obtain a b where "cs = a @ w @ b"
        by blast
      then have "c # cs = (c # a) @ w @ b"
        by simp
      then show ?thesis
        by blast
    qed
  next
    assume "\<exists>a b. c # cs = a @ w @ b"
    then obtain a b where ab: "c # cs = a @ w @ b"
      by blast
    show "Contains (c # cs) w"
    proof (cases a)
      case Nil
      with ab have "HasPrefix (c # cs) w"
        by (auto simp: HasPrefix_iff)
      then show ?thesis
        by simp
    next
      case (Cons x xs)
      with ab have "cs = xs @ w @ b"
        by simp
      with Cons.IH have "Contains cs w"
        by blast
      then show ?thesis
        by simp
    qed
  qed
qed

lemma no_marker_no_helper:
  assumes "marker_scan 0 out \<noteq> 8"
  shows "\<not> Contains out timeFuncText"
proof
  assume "Contains out timeFuncText"
  then obtain a b where "out = a @ timeFuncText @ b"
    by (auto simp: Contains_iff)
  moreover obtain x y where "timeFuncText = x @ helper_marker @ y"
    using timeFuncText_marker by blast
  ultimately have "out = (a @ x) @ helper_marker @ (y @ b)"
    by simp
  then have "marker_scan 0 out = 8"
    by (simp only: marker_scan_contains)
  with assms show False
    by simp
qed

lemma single_line_entity_type: "single_line t \<Longrightarrow> single_line (entity_type t)"
  by (auto simp: entity_type_def nullableToBasic_def split: option.splits if_splits)

lemma single_line_entity_access:
  "single_line (FieldName f) \<Longrightarrow> single_line (entity_access f)"
  by (simp add: entity_access_def Let_def)

lemma single_line_po_access:
  "single_line (FieldType f) \<Longrightarrow> single_line private \<Longrightarrow> single_line (po_access f private)"
  by (auto simp: po_access_def Let_def TrimPrefix_def single_line_drop)

lemma marker_scan_line:
  "single_line x \<Longrightarrow> marker_scan (Suc 0) (CHR 0x09 # x @ ''\<newline>'') = Suc 0"
  by (simp add: marker_scan_single_line)

lemma marker_scan_po_line:
  assumes "single_line_field f"
  shows "marker_scan (Suc 0) (po_line f) = Suc 0"
proof -
  define x where "x = pad 30 (FieldName f) @ '' '' @ pad 20 (FieldType f) @
                 '' '' @ [CHR 0x60] @ ''db:'' @ [CHR 0x22] @ OriginalField f @ [CHR 0x22] @
                 (if Validate f \<noteq> [] then '' '' @ Validate f else []) @
                 [CHR 0x60] @ '' // '' @ Comment f"
  from assms have "single_line x"
    by (simp add: single_line_field_def x_def)
  moreover have "po_line f = CHR 0x09 # x @ ''\<newline>''"
    by (simp add: po_line_def Let_def x_def)
  ultimately show ?thesis
    by (simp only: marker_scan_line)
qed

lemma marker_scan_entity_line:
  assumes "single_line_field f" and "entity_line f = Some l"
  shows "marker_scan (Suc 0) l = Suc 0"
proof -
  define x where "x = pad 30 (ToLower (take 1 (FieldName f)) @ drop 1 (FieldName f)) @
                '' '' @ pad 20 (entity_type (FieldType f)) @ '' // '' @ Comment f"
  from assms(1) have "single_line x"
    by (simp add: single_line_field_def single_line_take single_line_drop
          single_line_entity_type x_def)
  moreover from assms(2) have "l = CHR 0x09 # x @ ''\<newline>''"
    by (auto simp: entity_line_def privateField_def x_def split: if_splits)
  ultimately show ?thesis
    by (simp only: marker_scan_line)
qed

lemma marker_scan_to_entity_line:
  assumes "single_line_field f" and "to_entity_line f = Some l"
  shows "marker_scan (Suc 0) l = Suc 0"
proof -
  define x where "x = [CHR 0x09] @ ''With'' @
                Title (ToLower (take 1 (FieldName f)) @ drop 1 (FieldName f)) @
                ''(p.'' @ entity_access f @ '').''"
  from assms(1) have "single_line x"
    by (simp add: single_line_field_def single_line_take single_line_drop
          single_line_entity_access x_def)
  moreover from assms(2) have "l = CHR 0x09 # x @ ''\<newline>''"
    by (auto simp: to_entity_line_def privateField_def x_def split: if_splits)
  ultimately show ?thesis
    by (simp only: marker_scan_line)
qed

lemma marker_scan_to_po_line:
  assumes "single_line_field f" and "to_po_line f = Some l"
  shows "marker_scan (Suc 0) l = Suc 0"
proof -
  define x where "x = [CHR 0x09] @ pad 15 (FieldName f) @ '': '' @
                po_access f (ToLower (take 1 (FieldName f)) @ drop 1 (FieldName f)) @ '',''"
  from assms(1) have "single_line x"
    by (simp add: single_line_field_def single_line_take single_line_drop
          single_line_po_access x_def)
  moreover from assms(2) have "l = CHR 0x09 # x @ ''\<newline>''"
    by (auto simp: to_po_line_def privateField_def x_def split: if_splits)
  ultimately show ?thesis
    by (simp only: marker_scan_line)
qed

lemma marker_scan_concat_lines:
  "\<forall>f \<in> set fs. marker_scan (Suc 0) (g f) = Suc 0 \<Longrightarrow>
   marker_scan (Suc 0) (concat (map g fs)) = Suc 0"
  by (induction fs) simp_all

lemma marker_scan_write_lines:
  "write_lines g fs = Some ls \<Longrightarrow>
   \<forall>f \<in> set fs. \<forall>l. g f = Some l \<longrightarrow> marker_scan (Suc 0) l = Suc 0 \<Longrightarrow>
   marker_scan (Suc 0) ls = Suc 0"
  by (induction fs arbitrary: ls) (auto split: option.splits)

lemma marker_scan_po_part:
  assumes "single_line (StructName p)" and "\<forall>f \<in> set (Fields p). single_line_field f"
  shows "marker_scan 0 (po_part p) = Suc 0"
proof -
  have s: "marker_scan 0 (StructName p) = 0"
    using assms(1) by (rule marker_scan_single_line)
  have l: "marker_scan (Suc 0) (concat (map po_line (Fields p))) = Suc 0"
    using assms(2) by (intro marker_scan_concat_lines ballI marker_scan_po_line) blast
  show ?thesis
    by (simp add: po_part_def s l)
qed

lemma marker_scan_entity_part:
  assumes "single_line (StructName p)" and "single_line (SecondStructName p)"
    and "\<forall>f \<in> set (Fields p). single_line_field f"
    and "entity_part p = Some e" and "\<not> needTimeFunc (Fields p)"
  shows "marker_scan (Suc 0) e = Suc 0"
proof -
  from assms(4) obtain entityLines toEntityLines toPoLines
    where el: "write_lines entity_line (Fields p) = Some entityLines"
      and tel: "write_lines to_entity_line (Fields p) = Some toEntityLines"
      and tpl: "write_lines to_po_line (Fields p) = Some toPoLines"
    by (auto simp: entity_part_def split: option.splits)
  have s: "marker_scan 0 (StructName p) = 0" "marker_scan 0 (SecondStructName p) = 0"
    using assms(1,2) by (simp_all add: marker_scan_single_line)
  have l: "marker_scan (Suc 0) entityLines = Suc 0"
    "marker_scan (Suc 0) toEntityLines = Suc 0" "marker_scan (Suc 0) toPoLines = Suc 0"
    using assms(3) marker_scan_write_lines [OF el] marker_scan_write_lines [OF tel]
      marker_scan_write_lines [OF tpl]
      marker_scan_entity_line marker_scan_to_entity_line marker_scan_to_po_line
    by blast+
  have "marker_scan (Suc 0) (the (entity_part p)) = Suc 0"
    by (simp add: entity_part_def el tel tpl assms(5) s l)
  with assms(4) show ?thesis
    by simp
qed

lemma render_helper_iff:
  assumes "render p = Some out"
    and "single_line (StructName p)" and "single_line (SecondStructName p)"
    and "\<forall>f \<in> set (Fields p). single_line_field f"
  shows "Contains out timeFuncText \<longleftrightarrow>
         SecondStructName p \<noteq> [] \<and>
         (\<exists>f \<in> set (Fields p). FieldType f = ''datetime.NullDateTime'')"
proof (cases "SecondStructName p \<noteq> [] \<and> needTimeFunc (Fields p)")
  case True
  with assms(1) obtain e where e: "entity_part p = Some e" and out: "out = po_part p @ e"
    by (auto simp: render_def split: option.splits)
  from e True obtain body where "e = body @ timeFuncText"
    by (auto simp: entity_part_def split: option.splits)
  with out have "out = (po_part p @ body) @ timeFuncText @ []"
    by simp
  then have "Contains out timeFuncText"
    unfolding Contains_iff by blast
  with True show ?thesis
    by (simp add: needTimeFunc_iff)
next
  case False
  have "marker_scan 0 out = Suc 0"
  proof (cases "SecondStructName p = []")
    case True
    with assms(1) have "out = po_part p"
      by (simp add: render_def)
    with marker_scan_po_part [OF assms(2,4)] show ?thesis
      by simp
  next
    case second: False
    with assms(1) obtain e where e: "entity_part p = Some e" and out: "out = po_part p @ e"
      by (auto simp: render_def split: option.splits)
    from second False have "\<not> needTimeFunc (Fields p)"
      by simp
    from marker_scan_entity_part [OF assms(2,3,4) e this] marker_scan_po_part [OF assms(2,4)] out
    show ?thesis
      by simp
  qed
  then have "\<not> Contains out timeFuncText"
    by (intro no_marker_no_helper) simp
  with False show ?thesis
    by (simp add: needTimeFunc_iff)
qed

subsection \<open>The helper's text and what it computes\<close>

lemma timeFuncText_printed: "timeFuncText = helper_comment @ print_func helper_decl"
  by (simp add: timeFuncText_def helper_comment_def helper_decl_def)

lemma helper_decl_call:
  "call_func IsZero NewDateTime zeroDateTime helper_decl (TimeV t) =
     Returned (NullDateTimeV \<lparr>Time = (if IsZero t then zeroDateTime else NewDateTime t),
                              Valid = \<not> IsZero t\<rparr>)"
  by (simp add: helper_decl_def)

lemma NewSQLParser_single_line:
  "TypeMappings (NewSQLParser structNames) = typeMappings"
  "NullableTypeMappings (NewSQLParser structNames) = nullableTypeMappings"
  "Fields (NewSQLParser structNames) = []"
  by (simp_all add: NewSQLParser_def Let_def)

section \<open>The claims\<close>

text \<open>
  C1. The claim: from \<^verbatim>\<open>CREATE TABLE shard.orders_{region} (...)\<close> the extractor takes
  the table name \<^verbatim>\<open>orders\<close>, the templated suffix with its underscore being discarded.
  The code takes \<^verbatim>\<open>orders_\<close>: the group \<^verbatim>\<open>(\w+)\<close> is greedy and the underscore is a
  word character, so the group runs up to the brace and the optional suffix group,
  which starts with an underscore, matches nothing.
\<close>

theorem table_name_of_templated_table:
  "FindStringSubmatch tableNameRe ''CREATE TABLE shard.orders_{region} (...)'' =
     [''CREATE TABLE shard.orders_'', ''orders_''] \<and>
   TableName (snd (Parse ''CREATE TABLE shard.orders_{region} (...)''
                         (NewSQLParser [''OrderPO'', ''Order'']))) = ''orders_''"
  by code_simp

text \<open>
  C2. The claim: in the PO to entity conversion the builder call of a field reads the
  value accessor of the wrapper when the PO type is a nullable wrapper, the nullable
  32-bit float included, and reads the PO field itself otherwise. The \<^verbatim>\<open>switch\<close> has a
  case for five of the six wrappers and one for \<^verbatim>\<open>datetime.DateTime\<close>, which is not a
  wrapper and is read through \<^verbatim>\<open>.Time()\<close>; it has no case for \<^verbatim>\<open>sql.NullFloat32\<close>.
  What holds, for every output that is rendered with a second struct name: the output
  contains the conversion function \<^verbatim>\<open>To<Entity>Entity\<close>, whose body is the call of
  the builder, one builder call for each field of the parser, in the order of the fields,
  and \<^verbatim>\<open>Build()\<close>. The call of a field whose type is not \<^verbatim>\<open>sql.NullFloat32\<close> is
  \<^verbatim>\<open>With<Name>(p.<FieldName><accessor>).\<close> where the accessor is \<^verbatim>\<open>.String\<close>,
  \<^verbatim>\<open>.Int32\<close>, \<^verbatim>\<open>.Int64\<close>, \<^verbatim>\<open>.Float64\<close> or \<^verbatim>\<open>.Time.Time()\<close> for the five wrappers,
  \<^verbatim>\<open>.Time()\<close> for a \<^verbatim>\<open>datetime.DateTime\<close>, and nothing for every other type that is
  not a wrapper. Of the call of a \<^verbatim>\<open>sql.NullFloat32\<close> field nothing is said.
\<close>

theorem builder_call_reads:
  assumes "render p = Some out" and "SecondStructName p \<noteq> []"
  shows "(\<exists>pre calls post.
            out = pre @
                  ''func To'' @ SecondStructName p @ ''Entity(p *po.'' @ StructName p @
                  '') (*entity.'' @ SecondStructName p @ '', error) {\<newline>'' @
                  [CHR 0x09] @ ''return entity.New'' @ SecondStructName p @
                  ''Builder().\<newline>'' @
                  concat calls @
                  [CHR 0x09, CHR 0x09] @ ''Build()\<newline>}\<newline>\<newline>'' @ post \<and>
            list_all2
              (\<lambda>f call.
                 FieldType f \<noteq> ''sql.NullFloat32'' \<longrightarrow>
                 call = [CHR 0x09, CHR 0x09] @ ''With'' @
                        Title (ToLower (take 1 (FieldName f)) @ drop 1 (FieldName f)) @
                        ''(p.'' @ FieldName f @ accessor (FieldType f) @ '').\<newline>'')
              (Fields p) calls) \<and>
         (\<forall>t. is_nullable_wrapper t \<and> t \<noteq> ''sql.NullFloat32'' \<longrightarrow>
              accessor t \<in> {''.String'', ''.Int32'', ''.Int64'', ''.Float64'', ''.Time.Time()''}) \<and>
         accessor ''datetime.DateTime'' = ''.Time()'' \<and>
         (\<forall>t. \<not> is_nullable_wrapper t \<and> t \<noteq> ''datetime.DateTime'' \<longrightarrow> accessor t = [])"
proof -
  from assms obtain e where e: "entity_part p = Some e" and out: "out = po_part p @ e"
    by (auto simp: render_def split: option.splits)
  from e obtain entityLines toEntityLines toPoLines
    where el: "write_lines entity_line (Fields p) = Some entityLines"
      and tel: "write_lines to_entity_line (Fields p) = Some toEntityLines"
      and tpl: "write_lines to_po_line (Fields p) = Some toPoLines"
    by (auto simp: entity_part_def split: option.splits)
  define calls where "calls = map (\<lambda>f. the (to_entity_line f)) (Fields p)"
  from write_lines_Some [OF tel]
  have lines: "toEntityLines = concat calls"
    and some: "\<forall>f \<in> set (Fields p). to_entity_line f \<noteq> None"
    by (simp_all add: calls_def)
  define pre where "pre = po_part p @
                ''package entity\<newline>\<newline>'' @
                ''//go:generate entitytool -source=$GOFILE -entity='' @
                  SecondStructName p @ '' \<newline>\<newline>'' @
                ''// '' @ SecondStructName p @ '' entity'' @
                  [CHR 0xE7, CHR 0xBB, CHR 0x93, CHR 0xE6, CHR 0x9E, CHR 0x84,
                   CHR 0xE4, CHR 0xBD, CHR 0x93] @ ''\<newline>'' @
                ''type '' @ SecondStructName p @ '' struct {\<newline>'' @
                entityLines @
                ''}\<newline>\<newline>'' @
                ''func (e *'' @ SecondStructName p @ '') Validate() error {\<newline>'' @
                [CHR 0x09] @ ''return nil\<newline>}\<newline>\<newline>'' @
                ''// To'' @ SecondStructName p @ ''Entity po to entity\<newline>''"
  define post where "post =
                ''// To'' @ StructName p @ '' entity to po\<newline>'' @
                ''func To'' @ StructName p @ ''(e *entity.'' @ SecondStructName p @
                  '') (*po.'' @ StructName p @ '', error) {\<newline>'' @
                [CHR 0x09] @ ''return &po.'' @ StructName p @ ''{\<newline>'' @
                toPoLines @
                [CHR 0x09] @ ''}, nil\<newline>}\<newline>\<newline>'' @
                (if needTimeFunc (Fields p) then timeFuncText else [])"
  from e el tel tpl have "e = drop (length (po_part p)) pre @
                  ''func To'' @ SecondStructName p @ ''Entity(p *po.'' @ StructName p @
                  '') (*entity.'' @ SecondStructName p @ '', error) {\<newline>'' @
                  [CHR 0x09] @ ''return entity.New'' @ SecondStructName p @
                  ''Builder().\<newline>'' @
                  toEntityLines @
                  [CHR 0x09, CHR 0x09] @ ''Build()\<newline>}\<newline>\<newline>'' @ post"
    by (simp add: entity_part_def pre_def post_def)
  with out lines have shape: "out = pre @
                  ''func To'' @ SecondStructName p @ ''Entity(p *po.'' @ StructName p @
                  '') (*entity.'' @ SecondStructName p @ '', error) {\<newline>'' @
                  [CHR 0x09] @ ''return entity.New'' @ SecondStructName p @
                  ''Builder().\<newline>'' @
                  concat calls @
                  [CHR 0x09, CHR 0x09] @ ''Build()\<newline>}\<newline>\<newline>'' @ post"
    by (simp add: pre_def)
  have call: "the (to_entity_line f) =
                [CHR 0x09, CHR 0x09] @ ''With'' @
                Title (ToLower (take 1 (FieldName f)) @ drop 1 (FieldName f)) @
                ''(p.'' @ FieldName f @ accessor (FieldType f) @ '').\<newline>''"
    if "f \<in> set (Fields p)" "FieldType f \<noteq> ''sql.NullFloat32''" for f
  proof -
    from some that(1) have "FieldName f \<noteq> []"
      by (auto simp: line_None_iff)
    then show ?thesis
      using entity_access_accessor [OF that(2)]
      by (simp add: to_entity_line_def privateField_def)
  qed
  have rel: "list_all2
              (\<lambda>f call.
                 FieldType f \<noteq> ''sql.NullFloat32'' \<longrightarrow>
                 call = [CHR 0x09, CHR 0x09] @ ''With'' @
                        Title (ToLower (take 1 (FieldName f)) @ drop 1 (FieldName f)) @
                        ''(p.'' @ FieldName f @ accessor (FieldType f) @ '').\<newline>'')
              (Fields p) calls"
    by (simp add: calls_def list_all2_map2 list_all2_same call)
  have "\<forall>t. is_nullable_wrapper t \<and> t \<noteq> ''sql.NullFloat32'' \<longrightarrow>
              accessor t \<in> {''.String'', ''.Int32'', ''.Int64'', ''.Float64'', ''.Time.Time()''}"
    by (auto simp: is_nullable_wrapper_iff accessor_def)
  moreover have "accessor ''datetime.DateTime'' = ''.Time()''"
    by (simp add: accessor_def)
  moreover have "\<forall>t. \<not> is_nullable_wrapper t \<and> t \<noteq> ''datetime.DateTime'' \<longrightarrow> accessor t = []"
    by (simp add: is_nullable_wrapper_iff accessor_def)
  ultimately show ?thesis
    using shape rel by blast
qed

theorem builder_call_reads_witness:
  "\<exists>pre post.
     render (snd (Parse
       ([CHR 0x60] @ ''fname'' @ [CHR 0x60] @ '' VARCHAR(64) NULL COMMENT '' @
        [CHR 0x27] @ ''name'' @ [CHR 0x27] @ '',\<newline>'' @ [CHR 0x60] @ ''fat'' @
        [CHR 0x60] @ '' DATETIME NOT NULL COMMENT '' @ [CHR 0x27] @ ''at'' @ [CHR 0x27])
       (NewSQLParser [''UserPO'', ''User''])))
     = Some (pre @
             (''func ToUserEntity(p *po.UserPO) (*entity.User, error) {\<newline>'' @
              [CHR 0x09] @ ''return entity.NewUserBuilder().\<newline>'' @
              [CHR 0x09, CHR 0x09] @ ''WithName(p.Name.String).\<newline>'' @
              [CHR 0x09, CHR 0x09] @ ''WithAt(p.At.Time()).\<newline>'' @
              [CHR 0x09, CHR 0x09] @ ''Build()\<newline>}\<newline>\<newline>'') @
             post)"
proof -
  define q where "q = snd (Parse
       ([CHR 0x60] @ ''fname'' @ [CHR 0x60] @ '' VARCHAR(64) NULL COMMENT '' @
        [CHR 0x27] @ ''name'' @ [CHR 0x27] @ '',\<newline>'' @ [CHR 0x60] @ ''fat'' @
        [CHR 0x60] @ '' DATETIME NOT NULL COMMENT '' @ [CHR 0x27] @ ''at'' @ [CHR 0x27])
       (NewSQLParser [''UserPO'', ''User'']))"
  have fq: "Fields q =
      [\<lparr>FieldName = ''Name'', FieldType = ''sql.NullString'', Comment = ''name'',
        Validate = ''validate:'' @ [CHR 0x22] @ ''max=64'' @ [CHR 0x22],
        OriginalField = ''fname''\<rparr>,
       \<lparr>FieldName = ''At'', FieldType = ''datetime.DateTime'', Comment = ''at'',
        Validate = [], OriginalField = ''fat''\<rparr>]"
    unfolding q_def by code_simp
  have names: "StructName q = ''UserPO''" "SecondStructName q = ''User''"
    unfolding q_def by code_simp+
  have "render q \<noteq> None"
    by (simp add: render_None_iff fq)
  then obtain out where out: "render q = Some out"
    by blast
  have second: "SecondStructName q \<noteq> []"
    by (simp add: names)
  have t: "Title (ToLower ''N'' @ ''ame'') = ''Name''"
    "Title (ToLower ''A'' @ ''t'') = ''At''"
    by code_simp+
  from builder_call_reads [OF out second] obtain pre calls post
    where shape: "out = pre @
                  ''func To'' @ SecondStructName q @ ''Entity(p *po.'' @ StructName q @
                  '') (*entity.'' @ SecondStructName q @ '', error) {\<newline>'' @
                  [CHR 0x09] @ ''return entity.New'' @ SecondStructName q @
                  ''Builder().\<newline>'' @
                  concat calls @
                  [CHR 0x09, CHR 0x09] @ ''Build()\<newline>}\<newline>\<newline>'' @ post"
      and rel: "list_all2
              (\<lambda>f call.
                 FieldType f \<noteq> ''sql.NullFloat32'' \<longrightarrow>
                 call = [CHR 0x09, CHR 0x09] @ ''With'' @
                        Title (ToLower (take 1 (FieldName f)) @ drop 1 (FieldName f)) @
                        ''(p.'' @ FieldName f @ accessor (FieldType f) @ '').\<newline>'')
              (Fields q) calls"
    by blast
  from rel have "calls = [[CHR 0x09, CHR 0x09] @ ''WithName(p.Name.String).\<newline>'',
                          [CHR 0x09, CHR 0x09] @ ''WithAt(p.At.Time()).\<newline>'']"
    by (auto simp: fq list_all2_Cons1 t accessor_def)
  with shape have "out = pre @
             (''func ToUserEntity(p *po.UserPO) (*entity.User, error) {\<newline>'' @
              [CHR 0x09] @ ''return entity.NewUserBuilder().\<newline>'' @
              [CHR 0x09, CHR 0x09] @ ''WithName(p.Name.String).\<newline>'' @
              [CHR 0x09, CHR 0x09] @ ''WithAt(p.At.Time()).\<newline>'' @
              [CHR 0x09, CHR 0x09] @ ''Build()\<newline>}\<newline>\<newline>'') @
             post"
    by (simp add: names)
  with out show ?thesis
    unfolding q_def by blast
qed

text \<open>
  Two columns against the claim as it is written: a nullable \<^verbatim>\<open>FLOAT\<close> column has
  the wrapper type \<^verbatim>\<open>sql.NullFloat32\<close> and its builder call reads the field itself,
  and a \<^verbatim>\<open>DATETIME NOT NULL\<close> column has a type that is not a wrapper and its builder
  call reads \<^verbatim>\<open>.Time()\<close>.
\<close>

theorem builder_call_counterexample:
  "map (\<lambda>f. (FieldType f, is_nullable_wrapper (FieldType f), to_entity_line f))
     (Fields (snd (Parse ([CHR 0x60] @ ''rate'' @ [CHR 0x60] @ '' FLOAT NULL COMMENT '' @
                          [CHR 0x27] @ ''r'' @ [CHR 0x27, CHR 0x0A, CHR 0x60] @ ''at'' @
                          [CHR 0x60] @ '' DATETIME NOT NULL COMMENT '' @
                          [CHR 0x27] @ ''t'' @ [CHR 0x27])
                         (NewSQLParser [''P'', ''E'']))))
   = [(''sql.NullFloat32'', True, Some ([CHR 0x09, CHR 0x09] @ ''WithRate(p.Rate).\<newline>'')),
      (''datetime.DateTime'', False,
       Some ([CHR 0x09, CHR 0x09] @ ''WithAt(p.At.Time()).\<newline>''))]"
  by code_simp




text \<open>
  C4. The claim: for every matched column whose type keyword has no entry in the
  selected table, extraction and generation do not fail or crash, the type of the
  descriptor is the empty string and the output carries it. The column \<^verbatim>\<open>f\<close> of type
  \<^verbatim>\<open>ENUM\<close> is matched, \<^verbatim>\<open>ENUM\<close> has no entry, \<^verbatim>\<open>Parse\<close> returns \<^verbatim>\<open>nil\<close> and the
  descriptor has the empty type; its field name is empty too (the leading \<^verbatim>\<open>F\<close> is
  dropped and nothing is left), and with a second struct name \<^verbatim>\<open>GenerateStruct\<close>
  panics on \<^verbatim>\<open>field.FieldName[:1]\<close>. The crash is that of C8 and the type plays no part
  in it: by \<open>unmapped_type_embedded\<close> an unmapped type is never an error of \<^verbatim>\<open>Parse\<close>,
  and every output that is rendered contains the line of the column with blanks for the
  type.
\<close>

theorem unmapped_type_column_panics:
  "FindAllStringSubmatch fieldRe
     ([CHR 0x60] @ ''f'' @ [CHR 0x60] @ '' ENUM NOT NULL COMMENT '' @ [CHR 0x27] @ ''x'' @
          [CHR 0x27])
     = [[[CHR 0x60] @ ''f'' @ [CHR 0x60] @ '' ENUM NOT NULL COMMENT '' @ [CHR 0x27] @ ''x'' @
          [CHR 0x27],
         ''f'', ''ENUM'', [], ''NOT NULL'', ''x'']] \<and>
   TypeMappings (NewSQLParser [''P'', ''E'']) ''ENUM'' = None \<and>
   fst (Parse ([CHR 0x60] @ ''f'' @ [CHR 0x60] @ '' ENUM NOT NULL COMMENT '' @ [CHR 0x27] @ ''x'' @
          [CHR 0x27])
              (NewSQLParser [''P'', ''E''])) = None \<and>
   Fields (snd (Parse ([CHR 0x60] @ ''f'' @ [CHR 0x60] @ '' ENUM NOT NULL COMMENT '' @ [CHR 0x27] @ ''x'' @
          [CHR 0x27])
                      (NewSQLParser [''P'', ''E''])))
     = [\<lparr>FieldName = [], FieldType = [], Comment = ''x'', Validate = [],
         OriginalField = ''f''\<rparr>] \<and>
   fst (GenerateStruct joinPath outputDir
          (snd (Parse ([CHR 0x60] @ ''f'' @ [CHR 0x60] @ '' ENUM NOT NULL COMMENT '' @ [CHR 0x27] @ ''x'' @
          [CHR 0x27])
                      (NewSQLParser [''P'', ''E''])), fs)) = Inl Panic"
proof -
  let ?sql = "[CHR 0x60] @ ''f'' @ [CHR 0x60] @ '' ENUM NOT NULL COMMENT '' @ [CHR 0x27] @ ''x'' @
          [CHR 0x27]"
  let ?p = "snd (Parse ?sql (NewSQLParser [''P'', ''E'']))"
  have m: "FindAllStringSubmatch fieldRe ?sql
             = [[?sql, ''f'', ''ENUM'', [], ''NOT NULL'', ''x'']]"
    by code_simp
  have u: "TypeMappings (NewSQLParser [''P'', ''E'']) ''ENUM'' = None"
    by (simp add: NewSQLParser_def typeMappings_def typeTable_def)
  have nil: "fst (Parse ?sql (NewSQLParser [''P'', ''E''])) = None"
    by (simp add: Parse_returns_nil)
  have fields: "Fields ?p = [\<lparr>FieldName = [], FieldType = [], Comment = ''x'',
                              Validate = [], OriginalField = ''f''\<rparr>]"
    by code_simp
  have "render ?p = None"
    by code_simp
  then have "fst (GenerateStruct joinPath outputDir (?p, fs)) = Inl Panic"
    by (simp add: GenerateStruct_cases)
  with m u nil fields show ?thesis
    by simp
qed

text \<open>
  C5. The tag of every matched column: \<^verbatim>\<open>Parse\<close> appends one descriptor for each
  match of the column pattern, in the order of the matches, and the tag of the descriptor
  is \<^verbatim>\<open>max=\<close> with the first run of digits of the type token (group 2 of the match)
  when the type token starts with \<^verbatim>\<open>VARCHAR\<close>; otherwise \<^verbatim>\<open>omitempty\<close> when the other
  clause (group 4) contains the encryption marker; otherwise none. The tag is one string,
  so a column carries at most one, and the size tag comes first. A type token
  \<^verbatim>\<open>VARCHAR\<close> with no digit has an empty first run, and its tag is \<^verbatim>\<open>max=\<close> with no
  number after it: the fourth column below.
\<close>

theorem validation_tag:
  "map Validate (Fields (snd (Parse sqlContent p))) =
     map Validate (Fields p) @
     map (\<lambda>match. if HasPrefix (match ! 2) ''VARCHAR''
                    then ''validate:'' @ [CHR 0x22] @ ''max='' @ first_digit_run (match ! 2) @
                         [CHR 0x22]
                    else if Contains (match ! 4) encryption_marker
                    then ''validate:'' @ [CHR 0x22] @ ''omitempty'' @ [CHR 0x22]
                    else [])
         (FindAllStringSubmatch fieldRe sqlContent)"
  by (simp add: Parse_Fields field_of_match_def validate_of_def FindString_digitsRe Let_def)

theorem validation_tag_witness:
  "map Validate (Fields (snd (Parse
     ([CHR 0x60] @ ''fname'' @ [CHR 0x60] @ '' VARCHAR(64) NOT NULL '' @
      [CHR 0xE5, CHR 0x8A, CHR 0xA0, CHR 0xE5, CHR 0xAF, CHR 0x86] @ '' COMMENT '' @
      [CHR 0x27] @ ''name'' @ [CHR 0x27] @ '',\<newline>'' @ [CHR 0x60] @ ''fcard'' @
      [CHR 0x60] @ '' CHAR(16) NOT NULL '' @
      [CHR 0xE5, CHR 0x8A, CHR 0xA0, CHR 0xE5, CHR 0xAF, CHR 0x86] @ '' COMMENT '' @
      [CHR 0x27] @ ''card'' @ [CHR 0x27] @ '',\<newline>'' @ [CHR 0x60] @ ''fid'' @
      [CHR 0x60] @ '' BIGINT NOT NULL COMMENT '' @ [CHR 0x27] @ ''key'' @ [CHR 0x27] @
      '',\<newline>'' @ [CHR 0x60] @ ''fmemo'' @ [CHR 0x60] @ '' VARCHAR NULL COMMENT '' @
      [CHR 0x27] @ ''memo'' @ [CHR 0x27])
     (NewSQLParser [''UserPO'', ''User'']))))
   = [''validate:'' @ [CHR 0x22] @ ''max=64'' @ [CHR 0x22],
      ''validate:'' @ [CHR 0x22] @ ''omitempty'' @ [CHR 0x22],
      [],
      ''validate:'' @ [CHR 0x22] @ ''max='' @ [CHR 0x22]]"
proof -
  define sql where
    "sql = [CHR 0x60] @ ''fname'' @ [CHR 0x60] @ '' VARCHAR(64) NOT NULL '' @
           [CHR 0xE5, CHR 0x8A, CHR 0xA0, CHR 0xE5, CHR 0xAF, CHR 0x86] @ '' COMMENT '' @
           [CHR 0x27] @ ''name'' @ [CHR 0x27] @ '',\<newline>'' @ [CHR 0x60] @ ''fcard'' @
           [CHR 0x60] @ '' CHAR(16) NOT NULL '' @
           [CHR 0xE5, CHR 0x8A, CHR 0xA0, CHR 0xE5, CHR 0xAF, CHR 0x86] @ '' COMMENT '' @
           [CHR 0x27] @ ''card'' @ [CHR 0x27] @ '',\<newline>'' @ [CHR 0x60] @ ''fid'' @
           [CHR 0x60] @ '' BIGINT NOT NULL COMMENT '' @ [CHR 0x27] @ ''key'' @
           [CHR 0x27] @ '',\<newline>'' @ [CHR 0x60] @ ''fmemo'' @ [CHR 0x60] @
           '' VARCHAR NULL COMMENT '' @ [CHR 0x27] @ ''memo'' @ [CHR 0x27]"
  define p where "p = NewSQLParser [''UserPO'', ''User'']"
  have r: "map Validate (Fields p) @
     map (\<lambda>match. if HasPrefix (match ! 2) ''VARCHAR''
                    then ''validate:'' @ [CHR 0x22] @ ''max='' @ first_digit_run (match ! 2) @
                         [CHR 0x22]
                    else if Contains (match ! 4) encryption_marker
                    then ''validate:'' @ [CHR 0x22] @ ''omitempty'' @ [CHR 0x22]
                    else [])
         (FindAllStringSubmatch fieldRe sql)
     = [''validate:'' @ [CHR 0x22] @ ''max=64'' @ [CHR 0x22],
        ''validate:'' @ [CHR 0x22] @ ''omitempty'' @ [CHR 0x22],
        [],
        ''validate:'' @ [CHR 0x22] @ ''max='' @ [CHR 0x22]]"
    unfolding sql_def p_def by code_simp
  have "map Validate (Fields (snd (Parse sql p)))
     = [''validate:'' @ [CHR 0x22] @ ''max=64'' @ [CHR 0x22],
        ''validate:'' @ [CHR 0x22] @ ''omitempty'' @ [CHR 0x22],
        [],
        ''validate:'' @ [CHR 0x22] @ ''max='' @ [CHR 0x22]]"
    by (rule trans [OF validation_tag r])
  then show ?thesis
    unfolding sql_def p_def .
qed

text \<open>
  C6. The claim: for a snake-case \<open>s\<close> with no upper-case letter whose Pascal form does
  not begin with \<^verbatim>\<open>F\<close>, \<^verbatim>\<open>ToPascalCase\<close> puts the first letter of each part between
  underscores in upper case and drops the underscores, and \<^verbatim>\<open>ToSnakeCase\<close> of the result
  is \<open>s\<close> again, up to the case of letters. The first half holds as it stands. For the
  second, \<^verbatim>\<open>ToSnakeCase\<close> puts an underscore only before an upper-case letter that is not
  at index 0, so the underscore before a part that is empty or starts with a digit is
  lost, and so is an underscore at the start of \<open>s\<close>. What holds, for every \<open>s\<close> of
  lower-case letters, digits and underscores whose Pascal form does not begin with \<^verbatim>\<open>F\<close>:
  the round trip gives \<open>s\<close> up to case exactly when it gives \<open>s\<close> itself, and it does so
  exactly when \<open>s\<close> does not start with an underscore and every part after the first is
  non-empty and starts with a lower-case letter. The first part may start with a digit or,
  when it is the only one, be empty.
\<close>

theorem pascal_snake_round_trip:
  assumes chars: "\<forall>c \<in> set s. isLower c \<or> isDigit c \<or> c = CHR ''_''"
    and noF: "\<not> HasPrefix (pascal_joined s) ''F''"
  shows "ToPascalCase s = concat (map capitalize (Split s (CHR ''_''))) \<and>
         (ToLower (ToSnakeCase (ToPascalCase s)) = ToLower s \<longleftrightarrow>
            ToSnakeCase (ToPascalCase s) = s) \<and>
         (ToSnakeCase (ToPascalCase s) = s \<longleftrightarrow>
            \<not> HasPrefix s ''_'' \<and>
            (\<forall>part \<in> set (tl (Split s (CHR ''_''))). part \<noteq> [] \<and> isLower (hd part)))"
proof -
  obtain p ps where sp: "Split s (CHR ''_'') = p # ps"
    using Split_Cons by blast
  have in_part: "isLower c \<or> isDigit c" if "part \<in> set (p # ps)" "c \<in> set part" for part c
    using Split_chars [of part s "CHR ''_''"] that chars sp by auto
  have okp: "\<forall>c \<in> set p. isLower c \<or> isDigit c"
    using in_part [of p] by auto
  have okps: "\<forall>q \<in> set ps. \<forall>c \<in> set q. isLower c \<or> isDigit c"
    using in_part by auto
  have "Title part = capitalize part" if "part \<in> set (p # ps)" for part
    by (intro Title_capitalize ballI)
       (use in_part [OF that] lower_digit_not_separator in blast)
  then have "\<forall>part \<in> set (p # ps). Title part = capitalize part"
    by blast
  then have mt: "map Title (p # ps) = map capitalize (p # ps)"
    by (simp only: map_eq_conv)
  have joined: "pascal_joined s = concat (map capitalize (p # ps))"
    by (simp only: pascal_joined_def sp Join_empty_sep mt)
  with noF have pascal: "ToPascalCase s = concat (map capitalize (p # ps))"
    by (simp add: ToPascalCase_def Let_def)
  have s_eq: "s = Join (p # ps) ''_''"
    using Join_Split [of s "CHR ''_''"] by (simp add: sp)
  define rest where "rest = concat (map capitalize ps)"
  have snake: "ToSnakeCase (ToPascalCase s) = p @ ToSnakeCase_loop (length p) rest"
    using loop_part [OF okp, of 0 rest] by (simp add: pascal ToSnakeCase_def rest_def)
  have len_s: "length s = length p + length (concat ps) + length ps"
    using s_eq Join_length [of p ps] by simp
  have lower_s: "ToLower s = s"
    using chars lower_digit_not_upper by (auto simp: ToLower_def toLower_def map_idI)
  have lower_out: "ToLower (ToSnakeCase (ToPascalCase s)) = ToSnakeCase (ToPascalCase s)"
    by (simp add: ToSnakeCase_def ToSnakeCase_loop_lower)
  let ?cond = "\<not> HasPrefix s ''_'' \<and> (\<forall>part \<in> set ps. part \<noteq> [] \<and> isLower (hd part))"
  have suff: "ToSnakeCase (ToPascalCase s) = s" if c: ?cond
  proof (cases ps)
    case Nil
    with snake s_eq show ?thesis
      by (simp add: rest_def)
  next
    case (Cons q qs)
    with c HasPrefix_underscore [OF sp] have "0 < length p"
      by auto
    moreover have "\<forall>part \<in> set ps. part \<noteq> [] \<and> isLower (hd part) \<and> (\<forall>c \<in> set part. \<not> isUpper c)"
      using c okps lower_digit_not_upper by blast
    ultimately have "ToSnakeCase_loop (length p) rest = concat (map (\<lambda>q. ''_'' @ q) ps)"
      unfolding rest_def by (intro loop_parts) auto
    with snake s_eq show ?thesis
      by (simp add: Join_Cons)
  qed
  have nec: ?cond if eq: "ToSnakeCase (ToPascalCase s) = s"
  proof (rule ccontr)
    assume "\<not> ?cond"
    then consider (bad) "\<exists>q \<in> set ps. q = [] \<or> \<not> isLower (hd q)" | (under) "HasPrefix s ''_''"
      by blast
    then have "length (ToSnakeCase (ToPascalCase s)) < length s"
    proof cases
      case bad
      from loop_length_less [OF okps bad, of "length p"] show ?thesis
        by (simp add: snake len_s rest_def)
    next
      case under
      with HasPrefix_underscore [OF sp] obtain q qs where p: "p = []" and ps: "ps = q # qs"
        by (cases ps) auto
      from okps ps have okq: "\<forall>c \<in> set q. isLower c \<or> isDigit c"
        and okqs: "\<forall>q \<in> set qs. \<forall>c \<in> set q. isLower c \<or> isDigit c"
        by simp_all
      have "ToSnakeCase_loop 0 rest =
            q @ ToSnakeCase_loop (length q) (concat (map capitalize qs))"
        using loop_part [OF okq, of 0 "concat (map capitalize qs)"] by (simp add: rest_def ps)
      with loop_length_le [OF okqs, of "length q"] show ?thesis
        by (simp add: snake len_s p ps)
    qed
    with eq show False
      by simp
  qed
  from suff nec have "ToSnakeCase (ToPascalCase s) = s \<longleftrightarrow> ?cond"
    by blast
  with pascal lower_s lower_out show ?thesis
    by (simp add: sp)
qed


theorem pascal_snake_round_trip_witness:
  "ToPascalCase ''user_name'' = ''UserName'' \<and>
   ToSnakeCase (ToPascalCase ''user_name'') = ''user_name'' \<and>
   ToPascalCase ''1st_a'' = ''1stA'' \<and>
   ToSnakeCase (ToPascalCase ''1st_a'') = ''1st_a'' \<and>
   ToPascalCase ''a__b'' = ''AB'' \<and>
   ToSnakeCase (ToPascalCase ''a__b'') \<noteq> ''a__b''"
proof -
  have a1: "\<forall>c \<in> set ''user_name''. isLower c \<or> isDigit c \<or> c = CHR ''_''"
    by code_simp
  have a2: "\<not> HasPrefix (pascal_joined ''user_name'') ''F''"
    by code_simp
  have a3: "concat (map capitalize (Split ''user_name'' (CHR ''_''))) = ''UserName''"
    by code_simp
  have a4: "(\<not> HasPrefix ''user_name'' ''_'' \<and>
             (\<forall>part \<in> set (tl (Split ''user_name'' (CHR ''_''))).
                part \<noteq> [] \<and> isLower (hd part))) = True"
    by code_simp
  have b1: "\<forall>c \<in> set ''1st_a''. isLower c \<or> isDigit c \<or> c = CHR ''_''"
    by code_simp
  have b2: "\<not> HasPrefix (pascal_joined ''1st_a'') ''F''"
    by code_simp
  have b3: "concat (map capitalize (Split ''1st_a'' (CHR ''_''))) = ''1stA''"
    by code_simp
  have b4: "(\<not> HasPrefix ''1st_a'' ''_'' \<and>
             (\<forall>part \<in> set (tl (Split ''1st_a'' (CHR ''_''))).
                part \<noteq> [] \<and> isLower (hd part))) = True"
    by code_simp
  have c1: "\<forall>c \<in> set ''a__b''. isLower c \<or> isDigit c \<or> c = CHR ''_''"
    by code_simp
  have c2: "\<not> HasPrefix (pascal_joined ''a__b'') ''F''"
    by code_simp
  have c3: "concat (map capitalize (Split ''a__b'' (CHR ''_''))) = ''AB''"
    by code_simp
  have c4: "(\<not> HasPrefix ''a__b'' ''_'' \<and>
             (\<forall>part \<in> set (tl (Split ''a__b'' (CHR ''_''))).
                part \<noteq> [] \<and> isLower (hd part))) = False"
    by code_simp
  from pascal_snake_round_trip [OF a1 a2, unfolded a3 a4]
    pascal_snake_round_trip [OF b1 b2, unfolded b3 b4]
    pascal_snake_round_trip [OF c1 c2, unfolded c3 c4]
  show ?thesis
    by blast
qed

text \<open>
  The column name \<^verbatim>\<open>col_1\<close>, lower-case letters, a digit and an underscore, with the
  Pascal form \<^verbatim>\<open>Col1\<close>: the round trip gives \<^verbatim>\<open>col1\<close>.
\<close>

theorem round_trip_fails_on_digit_segment:
  "list_all (\<lambda>c. isLower c \<or> isDigit c \<or> c = CHR ''_'') ''col_1'' \<and>
   \<not> HasPrefix (pascal_joined ''col_1'') ''F'' \<and>
   ToPascalCase ''col_1'' = ''Col1'' \<and>
   ToSnakeCase (ToPascalCase ''col_1'') = ''col1'' \<and>
   ToLower (ToSnakeCase (ToPascalCase ''col_1'')) \<noteq> ToLower ''col_1''"
  by code_simp

text \<open>
  C7. The claim: the output has the helper \<^verbatim>\<open>TimeToNullDateTime\<close> if and only if some
  field has the type \<^verbatim>\<open>datetime.NullDateTime\<close>, and the helper gives a wrapper that is
  marked present exactly when the time is not zero, and then holds that time. The helper
  is written inside the part that a second struct name guards. What holds, for a new
  parser filled by \<^verbatim>\<open>Parse\<close> from any text, when the struct names given to
  \<^verbatim>\<open>NewSQLParser\<close> hold no line break: the output contains the helper's text if and
  only if a second struct name is given and some field has that type. The helper's text
  is its comment line followed by the source text of the function \<open>helper_decl\<close>, and a
  call of that function with a time returns the wrapper whose \<^verbatim>\<open>Valid\<close> is true exactly
  when the time is not zero, and whose \<^verbatim>\<open>Time\<close> is then \<^verbatim>\<open>datetime.NewDateTime\<close> of
  the time and otherwise the zero value.
\<close>

theorem helper_emitted_iff:
  "(render (snd (Parse sqlContent (NewSQLParser structNames))) = Some out \<and>
    single_line (StructName (NewSQLParser structNames)) \<and>
    single_line (SecondStructName (NewSQLParser structNames)) \<longrightarrow>
      (Contains out timeFuncText \<longleftrightarrow>
       SecondStructName (NewSQLParser structNames) \<noteq> [] \<and>
       (\<exists>f \<in> set (Fields (snd (Parse sqlContent (NewSQLParser structNames)))).
          FieldType f = ''datetime.NullDateTime''))) \<and>
   timeFuncText = helper_comment @ print_func helper_decl \<and>
   call_func IsZero NewDateTime zeroDateTime helper_decl (TimeV t) =
     Returned (NullDateTimeV \<lparr>Time = (if IsZero t then zeroDateTime else NewDateTime t),
                              Valid = \<not> IsZero t\<rparr>)"
proof -
  define q where "q = snd (Parse sqlContent (NewSQLParser structNames))"
  have "Contains out timeFuncText \<longleftrightarrow>
        SecondStructName (NewSQLParser structNames) \<noteq> [] \<and>
        (\<exists>f \<in> set (Fields q). FieldType f = ''datetime.NullDateTime'')"
    if r: "render q = Some out"
      and s1: "single_line (StructName (NewSQLParser structNames))"
      and s2: "single_line (SecondStructName (NewSQLParser structNames))"
  proof -
    have "\<forall>f \<in> set (Fields (NewSQLParser structNames)). single_line_field f"
      by (simp add: NewSQLParser_single_line)
    from Parse_single_line [OF NewSQLParser_single_line(1,2) s1 this, of sqlContent]
    have q1: "single_line (StructName q)" and qf: "\<forall>f \<in> set (Fields q). single_line_field f"
      by (simp_all add: q_def)
    have sec: "SecondStructName q = SecondStructName (NewSQLParser structNames)"
      by (simp add: q_def Parse_SecondStructName)
    with s2 have q2: "single_line (SecondStructName q)"
      by simp
    from render_helper_iff [OF r q1 q2 qf] sec show ?thesis
      by simp
  qed
  then have "render (snd (Parse sqlContent (NewSQLParser structNames))) = Some out \<and>
    single_line (StructName (NewSQLParser structNames)) \<and>
    single_line (SecondStructName (NewSQLParser structNames)) \<longrightarrow>
      (Contains out timeFuncText \<longleftrightarrow>
       SecondStructName (NewSQLParser structNames) \<noteq> [] \<and>
       (\<exists>f \<in> set (Fields (snd (Parse sqlContent (NewSQLParser structNames)))).
          FieldType f = ''datetime.NullDateTime''))"
    unfolding q_def by blast
  with timeFuncText_printed helper_decl_call [of IsZero NewDateTime zeroDateTime t]
  show ?thesis
    by (intro conjI)
qed

theorem helper_emitted_iff_witness:
  "(\<exists>out. render (snd (Parse ([CHR 0x60] @ ''d'' @ [CHR 0x60] @ '' DATETIME NULL COMMENT '' @
                                [CHR 0x27] @ ''x'' @ [CHR 0x27])
                               (NewSQLParser [''P'', ''E''])))
            = Some out \<and> Contains out timeFuncText) \<and>
   (\<exists>out. render (snd (Parse ([CHR 0x60] @ ''d'' @ [CHR 0x60] @ '' DATETIME NOT NULL COMMENT '' @
                                [CHR 0x27] @ ''x'' @ [CHR 0x27])
                               (NewSQLParser [''P'', ''E''])))
            = Some out \<and> \<not> Contains out timeFuncText)"
proof -
  define a where
    "a = [CHR 0x60] @ ''d'' @ [CHR 0x60] @ '' DATETIME NULL COMMENT '' @
         [CHR 0x27] @ ''x'' @ [CHR 0x27]"
  define b where
    "b = [CHR 0x60] @ ''d'' @ [CHR 0x60] @ '' DATETIME NOT NULL COMMENT '' @
         [CHR 0x27] @ ''x'' @ [CHR 0x27]"
  have fa: "Fields (snd (Parse a (NewSQLParser [''P'', ''E''])))
            = [\<lparr>FieldName = ''D'', FieldType = ''datetime.NullDateTime'', Comment = ''x'',
                Validate = [], OriginalField = ''d''\<rparr>]"
    unfolding a_def by code_simp
  have fb: "Fields (snd (Parse b (NewSQLParser [''P'', ''E''])))
            = [\<lparr>FieldName = ''D'', FieldType = ''datetime.DateTime'', Comment = ''x'',
                Validate = [], OriginalField = ''d''\<rparr>]"
    unfolding b_def by code_simp
  have names: "StructName (NewSQLParser [''P'', ''E'']) = ''P''"
    "SecondStructName (NewSQLParser [''P'', ''E'']) = ''E''"
    by (simp_all add: NewSQLParser_def)
  have lines: "single_line (StructName (NewSQLParser [''P'', ''E'']))"
    "single_line (SecondStructName (NewSQLParser [''P'', ''E'']))"
    by (simp_all add: names single_line_def)
  have "render (snd (Parse a (NewSQLParser [''P'', ''E'']))) \<noteq> None"
    by (simp add: render_None_iff fa)
  then obtain out where out: "render (snd (Parse a (NewSQLParser [''P'', ''E'']))) = Some out"
    by blast
  from helper_emitted_iff [of a "[''P'', ''E'']" out "\<lambda>t::nat. t = 0" "\<lambda>t::nat. t" "0::nat"
      "0::nat"] out lines
  have "Contains out timeFuncText"
    by (simp add: fa names)
  with out have 1: "\<exists>out. render (snd (Parse a (NewSQLParser [''P'', ''E''])))
                           = Some out \<and> Contains out timeFuncText"
    by blast
  have "render (snd (Parse b (NewSQLParser [''P'', ''E'']))) \<noteq> None"
    by (simp add: render_None_iff fb)
  then obtain out' where out': "render (snd (Parse b (NewSQLParser [''P'', ''E'']))) = Some out'"
    by blast
  from helper_emitted_iff [of b "[''P'', ''E'']" out' "\<lambda>t::nat. t = 0" "\<lambda>t::nat. t" "0::nat"
      "0::nat"] out' lines
  have "\<not> Contains out' timeFuncText"
    by (simp add: fb names)
  with out' have 2: "\<exists>out. render (snd (Parse b (NewSQLParser [''P'', ''E''])))
                            = Some out \<and> \<not> Contains out timeFuncText"
    by blast
  from 1 2 show ?thesis
    unfolding a_def b_def by blast
qed

text \<open>
  With no second struct name, a nullable \<^verbatim>\<open>DATETIME\<close> column and no helper: the output
  is the PO part alone and does not mention the helper. And a struct name of several
  lines that holds the helper's text: the output contains the text, in the comment of the
  PO struct, with a second struct name and no field at all.
\<close>

theorem helper_missing_without_second_name:
  "Fields (snd (Parse ([CHR 0x60] @ ''d'' @ [CHR 0x60] @ '' DATETIME NULL COMMENT '' @
                      [CHR 0x27] @ ''x'' @ [CHR 0x27]) (NewSQLParser [''P''])))
     = [\<lparr>FieldName = ''D'', FieldType = ''datetime.NullDateTime'', Comment = ''x'',
         Validate = [], OriginalField = ''d''\<rparr>] \<and>
   (case render (snd (Parse ([CHR 0x60] @ ''d'' @ [CHR 0x60] @ '' DATETIME NULL COMMENT '' @
                      [CHR 0x27] @ ''x'' @ [CHR 0x27]) (NewSQLParser [''P'']))) of
      None \<Rightarrow> False
    | Some out \<Rightarrow> \<not> Contains out ''TimeToNullDateTime'') \<and>
   Fields (snd (Parse [] (NewSQLParser [''P\<newline>'' @ timeFuncText, ''E'']))) = [] \<and>
   (case render (snd (Parse [] (NewSQLParser [''P\<newline>'' @ timeFuncText, ''E'']))) of
      None \<Rightarrow> False
    | Some out \<Rightarrow> Contains out timeFuncText)"
proof -
  define p where
    "p = snd (Parse ([CHR 0x60] @ ''d'' @ [CHR 0x60] @ '' DATETIME NULL COMMENT '' @
                     [CHR 0x27] @ ''x'' @ [CHR 0x27]) (NewSQLParser [''P'']))"
  have f: "Fields p = [\<lparr>FieldName = ''D'', FieldType = ''datetime.NullDateTime'',
                        Comment = ''x'', Validate = [], OriginalField = ''d''\<rparr>]"
    unfolding p_def by code_simp
  have s: "SecondStructName p = []" "StructName p = ''P''"
    unfolding p_def by (simp_all add: Parse_SecondStructName Parse_StructName NewSQLParser_def)
  have r: "render p = Some (po_part p)"
    by (simp add: render_def s)
  have "\<not> Contains (po_part p) ''TimeToNullDateTime''"
    unfolding po_part_def f s by code_simp
  with f r have 1: "Fields p = [\<lparr>FieldName = ''D'', FieldType = ''datetime.NullDateTime'',
                        Comment = ''x'', Validate = [], OriginalField = ''d''\<rparr>] \<and>
     (case render p of None \<Rightarrow> False | Some out \<Rightarrow> \<not> Contains out ''TimeToNullDateTime'')"
    by simp
  define n where "n = NewSQLParser [''P\<newline>'' @ timeFuncText, ''E'']"
  have none: "FindStringSubmatch tableNameRe [] = []" "FindAllStringSubmatch fieldRe [] = []"
    by code_simp+
  then have q: "snd (Parse [] n) = n"
    by (simp add: Parse_nothing_matches)
  have nf: "Fields n = []" "StructName n = ''P\<newline>'' @ timeFuncText" "SecondStructName n = ''E''"
    by (simp_all add: n_def NewSQLParser_def)
  have "render n \<noteq> None"
    by (simp add: render_None_iff nf)
  then obtain out where out: "render n = Some out"
    by blast
  then obtain e where "out = po_part n @ e"
    by (auto simp: render_def split: if_splits option.splits)
  then have "out =
     (''package po\<newline>\<newline>'' @
      ''import (\<newline>'' @ [CHR 0x09] @
      [CHR 0x22] @ ''git.woa.com/prd_base_pay_go/paycomm/datetime'' @ [CHR 0x22] @
      ''\<newline>'' @ [CHR 0x09] @
      [CHR 0x22] @ ''github.com/go-playground/validator/v10'' @ [CHR 0x22] @
      ''\<newline>)\<newline>\<newline>'' @ ''// P\<newline>'') @ timeFuncText @
     ('' Po'' @
      [CHR 0xE7, CHR 0xBB, CHR 0x93, CHR 0xE6, CHR 0x9E, CHR 0x84, CHR 0xE4, CHR 0xBD, CHR 0x93] @
      ''\<newline>'' @
      ''type '' @ StructName n @ '' struct {\<newline>'' @
      concat (map po_line (Fields n)) @ ''}\<newline>\<newline>\<newline>'' @ e)"
    by (simp add: po_part_def nf(2))
  then have "Contains out timeFuncText"
    unfolding Contains_iff by blast
  with out nf(1) q have 2: "Fields (snd (Parse [] n)) = [] \<and>
     (case render (snd (Parse [] n)) of None \<Rightarrow> False | Some out \<Rightarrow> Contains out timeFuncText)"
    by simp
  from 1 2 show ?thesis
    unfolding p_def n_def by blast
qed

text \<open>
  C8. The claim: for every field list that \<^verbatim>\<open>Parse\<close> can produce, with a second struct
  name given, \<^verbatim>\<open>GenerateStruct\<close> never slices a field name out of range. The column
  named \<^verbatim>\<open>f\<close> gets the empty field name (the leading \<^verbatim>\<open>F\<close> is dropped and nothing is
  left), and \<^verbatim>\<open>field.FieldName[:1]\<close> panics on it.
\<close>

theorem empty_field_name_panics:
  "Fields (snd (Parse ([CHR 0x60] @ ''f'' @ [CHR 0x60] @ '' INT NOT NULL COMMENT '' @
                        [CHR 0x27] @ ''x'' @ [CHR 0x27])
                      (NewSQLParser [''P'', ''E''])))
     = [\<lparr>FieldName = [], FieldType = ''int32'', Comment = ''x'', Validate = [],
         OriginalField = ''f''\<rparr>] \<and>
   fst (GenerateStruct joinPath outputDir
          (snd (Parse ([CHR 0x60] @ ''f'' @ [CHR 0x60] @ '' INT NOT NULL COMMENT '' @
                       [CHR 0x27] @ ''x'' @ [CHR 0x27])
                      (NewSQLParser [''P'', ''E''])), fs)) = Inl Panic"
proof -
  let ?p = "snd (Parse ([CHR 0x60] @ ''f'' @ [CHR 0x60] @ '' INT NOT NULL COMMENT '' @
                        [CHR 0x27] @ ''x'' @ [CHR 0x27])
                       (NewSQLParser [''P'', ''E'']))"
  have fields: "Fields ?p = [\<lparr>FieldName = [], FieldType = ''int32'', Comment = ''x'',
                              Validate = [], OriginalField = ''f''\<rparr>]"
    by code_simp
  have "render ?p = None"
    by code_simp
  then have "fst (GenerateStruct joinPath outputDir (?p, fs)) = Inl Panic"
    by (simp add: GenerateStruct_cases)
  with fields show ?thesis
    by simp
qed

text \<open>
  C9. \<^verbatim>\<open>GenerateStruct\<close> does not change the parser: whatever the call ends with (the
  file name, the error of the write or a panic), the table name, both struct names, the
  field list and both type tables are what they were before the call.
\<close>

theorem GenerateStruct_keeps_parser:
  "fst (snd (GenerateStruct joinPath outputDir (p, fs))) = p"
  by (simp add: GenerateStruct_cases split: option.splits)

text \<open>
  C10. \<^verbatim>\<open>Parse\<close> returns \<^verbatim>\<open>nil\<close> for every text and every parser (no index of a match
  is out of range); when neither pattern matches it leaves the parser as it was, so the
  table name and the field list of a new parser stay empty. \<^verbatim>\<open>LoadSQLFile\<close> returns an
  error exactly when the read fails, and the only error that \<^verbatim>\<open>GenerateStruct\<close> returns
  is that of the write.
\<close>

theorem Parse_never_fails:
  "fst (Parse sqlContent p) = None \<and>
   (FindStringSubmatch tableNameRe sqlContent = [] \<and>
    FindAllStringSubmatch fieldRe sqlContent = [] \<longrightarrow>
      snd (Parse sqlContent p) = p \<and>
      TableName (snd (Parse sqlContent (NewSQLParser structNames))) = [] \<and>
      Fields (snd (Parse sqlContent (NewSQLParser structNames))) = []) \<and>
   fst (LoadSQLFile filePath (p, fs)) =
     (case ReadFile fs filePath of
        Inl cause \<Rightarrow> Some (Error (ReadFailed cause))
      | Inr content \<Rightarrow> None) \<and>
   (\<forall>e. fst (GenerateStruct joinPath outputDir (p, fs)) = Inl (Error e) \<longrightarrow>
        (\<exists>cause. write_fault fs (GetOutputPath joinPath outputDir p) = Some cause \<and>
                 e = WriteFailed cause))"
proof -
  have "fst (LoadSQLFile filePath (p, fs)) =
     (case ReadFile fs filePath of
        Inl cause \<Rightarrow> Some (Error (ReadFailed cause))
      | Inr content \<Rightarrow> None)"
    by (simp add: LoadSQLFile_def Parse_returns_nil split: sum.splits)
  moreover have "\<forall>e. fst (GenerateStruct joinPath outputDir (p, fs)) = Inl (Error e) \<longrightarrow>
        (\<exists>cause. write_fault fs (GetOutputPath joinPath outputDir p) = Some cause \<and>
                 e = WriteFailed cause)"
    by (auto simp: GenerateStruct_cases split: option.splits)
  moreover have "TableName (NewSQLParser structNames) = []"
    "Fields (NewSQLParser structNames) = []"
    by (simp_all add: NewSQLParser_def Let_def)
  ultimately show ?thesis
    by (simp add: Parse_returns_nil Parse_nothing_matches)
qed

theorem Parse_never_fails_witness:
  "FindStringSubmatch tableNameRe ''SELECT 1'' = [] \<and>
   FindAllStringSubmatch fieldRe ''SELECT 1'' = [] \<and>
   Parse ''SELECT 1'' (NewSQLParser [''P'', ''E'']) = (None, NewSQLParser [''P'', ''E'']) \<and>
   TableName (snd (Parse ''SELECT 1'' (NewSQLParser [''P'', ''E'']))) = [] \<and>
   Fields (snd (Parse ''SELECT 1'' (NewSQLParser [''P'', ''E'']))) = [] \<and>
   fst (LoadSQLFile ''a.sql''
          (NewSQLParser [''P'', ''E''],
           \<lparr>read_result = \<lambda>path. Inl ''no such file'',
            write_fault = \<lambda>path. Some ''permission denied''\<rparr>))
     = Some (Error (ReadFailed ''no such file'')) \<and>
   fst (GenerateStruct (\<lambda>dir file. dir @ ''/'' @ file) ''out''
          (NewSQLParser [''P'', ''E''],
           \<lparr>read_result = \<lambda>path. Inl ''no such file'',
            write_fault = \<lambda>path. Some ''permission denied''\<rparr>))
     = Inl (Error (WriteFailed ''permission denied''))"
proof -
  let ?p = "NewSQLParser [''P'', ''E'']"
  let ?fs = "\<lparr>read_result = \<lambda>path. Inl ''no such file'',
              write_fault = \<lambda>path. Some ''permission denied''\<rparr> :: filesystem"
  have a: "FindStringSubmatch tableNameRe ''SELECT 1'' = []"
    by code_simp
  have b: "FindAllStringSubmatch fieldRe ''SELECT 1'' = []"
    by code_simp
  have c: "TableName ?p = [] \<and> Fields ?p = []"
    by (simp add: NewSQLParser_def)
  have d: "render ?p \<noteq> None"
    by (simp add: render_def entity_part_def NewSQLParser_def)
  have e: "fst (GenerateStruct (\<lambda>dir file. dir @ ''/'' @ file) ''out'' (?p, ?fs))
             = Inl (Error (WriteFailed ''permission denied''))"
    using d by (auto simp: GenerateStruct_cases split: option.splits)
  from Parse_never_fails [of "''SELECT 1''" ?p "[''P'', ''E'']" "''a.sql''" ?fs
                             "\<lambda>dir file. dir @ ''/'' @ file" "''out''"] a b c e
  show ?thesis
    by (simp add: ReadFile_def prod_eq_iff)
qed

end
